(* ===== verification/Prov_Prelude.thy ===== *)
theory Prov_Prelude
  imports Main "HOL-Library.Sublist" "HOL-Library.Word"
begin

text \<open>
  Shared vocabulary of the provfs development.

  The program is written in Rust. A Rust \<^verbatim>\<open>&str\<close> or \<^verbatim>\<open>String\<close> is, in memory, a sequence of
  bytes in UTF-8, and \<^verbatim>\<open>len()\<close>, \<^verbatim>\<open>as_bytes()\<close> and slicing count bytes. So both \<^typ>\<open>string\<close> values
  and raw byte buffers are modelled as \<^typ>\<open>string\<close>, a list of 8-bit characters; theory \<open>Utf8\<close>
  says which lists are valid UTF-8.

  This theory holds the operations of the Rust standard library on such byte strings that the
  program uses (\<^verbatim>\<open>split\<close>, \<^verbatim>\<open>split_once\<close>, \<^verbatim>\<open>join\<close>, \<^verbatim>\<open>trim\<close>, \<^verbatim>\<open>starts_with\<close>, \<^verbatim>\<open>contains\<close>,
  \<^verbatim>\<open>strip_prefix\<close>, decimal formatting and parsing, saturating arithmetic), the generic
  lemmas on them, the named collections of rewrite rules the component proofs share, and two
  small interfaces (locales): a printer/parser pair and a machine with an invariant.
\<close>

named_theorems str_facts \<open>facts on splitting, joining and trimming of byte strings\<close>
named_theorems op_defs \<open>defining equations of the modelled operations\<close>

type_synonym bytes = string
type_synonym str = string
type_synonym u32 = "32 word"
type_synonym u64 = "64 word"

section \<open>Splitting and joining\<close>

text \<open>\<^verbatim>\<open>s.split(c)\<close> for a one-byte (ASCII) separator: always at least one piece.\<close>

fun split_on :: "char \<Rightarrow> string \<Rightarrow> string list" where
  "split_on c [] = [[]]"
| "split_on c (x # xs) =
     (if x = c then [] # split_on c xs
      else (case split_on c xs of [] \<Rightarrow> [[x]] | y # ys \<Rightarrow> (x # y) # ys))"

text \<open>\<^verbatim>\<open>pieces.join(sep)\<close>.\<close>

fun join_with :: "string \<Rightarrow> string list \<Rightarrow> string" where
  "join_with sep [] = []"
| "join_with sep [x] = x"
| "join_with sep (x # y # zs) = x @ sep @ join_with sep (y # zs)"

text \<open>\<^verbatim>\<open>s.split_once(pat)\<close>: split at the first occurrence of a non-empty pattern.\<close>

fun split_once :: "string \<Rightarrow> string \<Rightarrow> (string \<times> string) option" where
  "split_once pat [] = (if pat = [] then Some ([], []) else None)"
| "split_once pat (x # xs) =
     (if prefix pat (x # xs) then Some ([], drop (length pat) (x # xs))
      else map_option (\<lambda>(a, b). (x # a, b)) (split_once pat xs))"

definition strip_prefix_str :: "string \<Rightarrow> string \<Rightarrow> string option" where
  "strip_prefix_str pat s = (if prefix pat s then Some (drop (length pat) s) else None)"

lemma split_on_nonempty [simp]: "split_on c s \<noteq> []"
  by (cases s) (auto split: list.splits)

lemma split_on_append:
  "split_on c (a @ c # b) = split_on c a @ split_on c b"
  by (induction a) (auto split: list.splits)

lemma split_on_no_sep: "c \<notin> set s \<Longrightarrow> split_on c s = [s]"
  by (induction s) auto

lemma split_on_pieces: "x \<in> set (split_on c s) \<Longrightarrow> c \<notin> set x"
proof (induction s arbitrary: x)
  case (Cons y s)
  then show ?case by (auto split: if_splits list.splits)
qed simp

lemma split_on_piece_chars: "x \<in> set (split_on c s) \<Longrightarrow> set x \<subseteq> set s"
proof (induction s arbitrary: x)
  case (Cons y s)
  then show ?case by (fastforce split: if_splits list.splits)
qed simp

lemma join_split: "join_with [c] (split_on c s) = s"
proof (induction s)
  case (Cons x s)
  obtain y ys where "split_on c s = y # ys" by (cases "split_on c s") auto
  with Cons show ?case by (cases ys) auto
qed simp

lemma join_Cons: "xs \<noteq> [] \<Longrightarrow> join_with sep (x # xs) = x @ sep @ join_with sep xs"
  by (cases xs) auto

lemma join_append:
  "xs \<noteq> [] \<Longrightarrow> ys \<noteq> [] \<Longrightarrow> join_with sep (xs @ ys) = join_with sep xs @ sep @ join_with sep ys"
proof (induction xs)
  case (Cons x xs)
  then show ?case by (cases "xs = []") (auto simp: join_Cons)
qed simp

lemma split_join:
  assumes "xs \<noteq> []" and "\<forall>x \<in> set xs. c \<notin> set x"
  shows "split_on c (join_with [c] xs) = xs"
  using assms
proof (induction xs)
  case (Cons x xs)
  then show ?case by (cases xs) (auto simp: split_on_append split_on_no_sep)
qed simp

lemma split_once_Some:
  "split_once pat s = Some (a, b) \<Longrightarrow> s = a @ pat @ b"
proof (induction s arbitrary: a b)
  case (Cons x s)
  then show ?case by (auto split: if_splits simp: prefix_def)
qed (auto split: if_splits)

lemma split_once_None_iff: "split_once pat s = None \<longleftrightarrow> \<not> sublist pat s"
proof (induction s)
  case (Cons x s)
  show ?case
  proof (cases "prefix pat (x # s)")
    case True
    then show ?thesis by (simp add: prefix_imp_sublist)
  next
    case False
    then show ?thesis using Cons by (auto simp: sublist_Cons_right)
  qed
qed auto

text \<open>
  Splitting at a separator that does not start inside \<open>a\<close> gives \<open>a\<close> back: for a one-byte
  separator, one that does not occur in \<open>a\<close>.
\<close>

lemma split_once_char: "c \<notin> set a \<Longrightarrow> split_once [c] (a @ c # b) = Some (a, b)"
  by (induction a) auto

lemma split_once_char_None: "c \<notin> set a \<Longrightarrow> split_once [c] a = None"
  by (induction a) auto

lemma split_once_str:
  assumes "\<not> sublist pat (a @ butlast pat)" and "pat \<noteq> []"
  shows "split_once pat (a @ pat @ b) = Some (a, b)"
  using assms(1)
proof (induction a)
  case Nil
  have "\<exists>x xs. pat @ b = x # xs" using assms(2) by (cases pat) auto
  then show ?case by (auto simp flip: append.assoc) (metis append_eq_conv_conj prefixI)+
next
  case (Cons x a)
  have "\<not> prefix pat (x # a @ pat @ b)"
  proof
    assume "prefix pat (x # a @ pat @ b)"
    then have "pat = take (length pat) (x # a @ pat @ b)"
      by (metis append_eq_conv_conj prefixE)
    also have "\<dots> = take (length pat) ((x # a) @ butlast pat)"
      using assms(2) by (simp add: butlast_conv_take take_Cons' )
    finally have "prefix pat ((x # a) @ butlast pat)"
      by (metis take_is_prefix)
    with Cons.prems show False by (simp add: prefix_imp_sublist)
  qed
  moreover have "\<not> sublist pat (a @ butlast pat)"
    using Cons.prems by (auto simp: sublist_Cons_right)
  ultimately show ?case using Cons.IH by simp
qed

lemmas split_facts [str_facts] =
  split_on_append split_on_no_sep split_join join_split join_Cons split_once_char


section \<open>Trimming\<close>

text \<open>
  \<^verbatim>\<open>str::trim\<close> removes the characters with the Unicode property White_Space from both ends. Their
  UTF-8 encodings are listed here. UTF-8 is self-synchronising, so on a valid string a listed
  encoding is a byte prefix (suffix) exactly when it is the first (last) character.
\<close>

definition whitespace :: "string list" where
  "whitespace =
     [[CHR 0x09], [CHR 0x0A], [CHR 0x0B], [CHR 0x0C], [CHR 0x0D], [CHR 0x20],
      [CHR 0xC2, CHR 0x85], [CHR 0xC2, CHR 0xA0], [CHR 0xE1, CHR 0x9A, CHR 0x80],
      [CHR 0xE2, CHR 0x80, CHR 0x80], [CHR 0xE2, CHR 0x80, CHR 0x81], [CHR 0xE2, CHR 0x80, CHR 0x82],
      [CHR 0xE2, CHR 0x80, CHR 0x83], [CHR 0xE2, CHR 0x80, CHR 0x84], [CHR 0xE2, CHR 0x80, CHR 0x85],
      [CHR 0xE2, CHR 0x80, CHR 0x86], [CHR 0xE2, CHR 0x80, CHR 0x87], [CHR 0xE2, CHR 0x80, CHR 0x88],
      [CHR 0xE2, CHR 0x80, CHR 0x89], [CHR 0xE2, CHR 0x80, CHR 0x8A], [CHR 0xE2, CHR 0x80, CHR 0xA8],
      [CHR 0xE2, CHR 0x80, CHR 0xA9], [CHR 0xE2, CHR 0x80, CHR 0xAF], [CHR 0xE2, CHR 0x81, CHR 0x9F],
      [CHR 0xE3, CHR 0x80, CHR 0x80]]"

function strip_any :: "string list \<Rightarrow> string \<Rightarrow> string" where
  "strip_any es s =
     (case find (\<lambda>e. e \<noteq> [] \<and> prefix e s) es of
        None \<Rightarrow> s
      | Some e \<Rightarrow> strip_any es (drop (length e) s))"
  by pat_completeness auto
termination
  by (relation "measure (\<lambda>(es, s). length s)")
    (auto simp: find_Some_iff intro!: diff_less)

declare strip_any.simps [simp del]

definition trim_start :: "str \<Rightarrow> str" where
  "trim_start s = strip_any whitespace s"

definition trim_end :: "str \<Rightarrow> str" where
  "trim_end s = rev (strip_any (map rev whitespace) (rev s))"

definition trim :: "str \<Rightarrow> str" where
  "trim s = trim_end (trim_start s)"

definition clean :: "string list \<Rightarrow> string \<Rightarrow> bool" where
  "clean es s \<longleftrightarrow> list_all (\<lambda>e. \<not> (e \<noteq> [] \<and> prefix e s)) es"

lemma clean_strip_any: "clean es s \<Longrightarrow> strip_any es s = s"
  by (subst strip_any.simps)
    (auto simp: clean_def list_all_iff find_None_iff split: option.splits dest!: find_Some_iff [THEN iffD1])

lemma strip_any_clean: "clean es (strip_any es s)"
proof (induction es s rule: strip_any.induct)
  case (1 es s)
  show ?case
  proof (cases "find (\<lambda>e. e \<noteq> [] \<and> prefix e s) es")
    case None
    then have "strip_any es s = s" by (subst strip_any.simps) simp
    with None show ?thesis by (auto simp: clean_def list_all_iff find_None_iff)
  next
    case (Some e)
    with 1 show ?thesis by (subst strip_any.simps) simp
  qed
qed

lemma strip_any_suffix: "suffix (strip_any es s) s"
proof (induction es s rule: strip_any.induct)
  case (1 es s)
  show ?case
  proof (cases "find (\<lambda>e. e \<noteq> [] \<and> prefix e s) es")
    case None
    then show ?thesis by (subst strip_any.simps) simp
  next
    case (Some e)
    with 1 have "suffix (strip_any es (drop (length e) s)) (drop (length e) s)" by blast
    with Some show ?thesis
      by (subst strip_any.simps) (auto intro: suffix_order.trans suffix_drop)
  qed
qed

lemma clean_prefix: "clean es s \<Longrightarrow> prefix t s \<Longrightarrow> clean es t"
  by (auto simp: clean_def list_all_iff intro: prefix_order.trans)

lemma trim_start_suffix: "suffix (trim_start s) s"
  by (simp add: trim_start_def strip_any_suffix)

lemma trim_end_prefix: "prefix (trim_end s) s"
  using strip_any_suffix [of "map rev whitespace" "rev s"]
  by (simp add: trim_end_def suffix_to_prefix)

lemma trim_sublist: "sublist (trim s) s"
  unfolding trim_def
  by (meson prefix_imp_sublist sublist_order.order.trans suffix_imp_sublist trim_end_prefix trim_start_suffix)

lemma set_trim: "set (trim s) \<subseteq> set s"
  using trim_sublist by (rule set_mono_sublist)

text \<open>A string that starts and ends with no white space is unchanged by \<^verbatim>\<open>trim\<close>.\<close>

definition trimmed :: "str \<Rightarrow> bool" where
  "trimmed s \<longleftrightarrow> clean whitespace s \<and> clean (map rev whitespace) (rev s)"

lemma trim_trimmed [simp]: "trimmed s \<Longrightarrow> trim s = s"
  by (simp add: trimmed_def trim_def trim_start_def trim_end_def clean_strip_any)

lemma trimmed_trim [simp]: "trimmed (trim s)"
proof -
  have "clean whitespace (trim_start s)"
    by (simp add: trim_start_def strip_any_clean)
  then have "clean whitespace (trim s)"
    unfolding trim_def by (rule clean_prefix) (rule trim_end_prefix)
  moreover have "clean (map rev whitespace) (rev (trim s))"
    by (simp add: trim_def trim_end_def strip_any_clean)
  ultimately show ?thesis by (simp add: trimmed_def)
qed

lemma trim_idem: "trim (trim s) = trim s"
  by simp

lemma trimmed_iff: "trimmed s \<longleftrightarrow> trim s = s"
  by (metis trim_trimmed trimmed_trim)

lemma trim_Nil [simp]: "trim [] = []"
  using set_trim [of "[]"] by simp

text \<open>No white space at the ends: in particular a printable ASCII character at each end.\<close>

definition graphic :: "char \<Rightarrow> bool" where
  "graphic c \<longleftrightarrow> 33 \<le> (of_char c :: nat) \<and> (of_char c :: nat) \<le> 126"

lemma whitespace_not_graphic:
  "list_all (\<lambda>e. e \<noteq> [] \<and> \<not> graphic (hd e) \<and> \<not> graphic (last e)) whitespace"
  by code_simp

lemma trimmed_graphic:
  assumes "s \<noteq> []" and "graphic (hd s)" and "graphic (last s)"
  shows "trimmed s"
proof -
  have "\<not> prefix e s" if "e \<in> set whitespace" for e
    using that assms whitespace_not_graphic by (auto simp: list_all_iff prefix_def neq_Nil_conv)
  moreover have "\<not> prefix (rev e) (rev s)" if "e \<in> set whitespace" for e
    using that assms whitespace_not_graphic
    by (fastforce simp: list_all_iff suffix_to_prefix [symmetric] suffix_def)
  ultimately show ?thesis
    by (auto simp: trimmed_def clean_def list_all_iff)
qed

text \<open>A final newline (as in \<^verbatim>\<open>/proc/<pid>/comm\<close>) is trimmed away.\<close>

lemma trim_newline:
  assumes "trimmed s"
  shows "trim (s @ [CHR 0x0A]) = s"
proof (cases "s = []")
  case True
  have "trim [CHR 0x0A] = []" by code_simp
  with True show ?thesis by simp
next
  case False
  have "clean whitespace (s @ [CHR 0x0A])"
  proof (rule ccontr)
    assume "\<not> clean whitespace (s @ [CHR 0x0A])"
    then obtain e where e: "e \<in> set whitespace" "e \<noteq> []" "prefix e (s @ [CHR 0x0A])"
      by (auto simp: clean_def list_all_iff)
    with assms have "e = s @ [CHR 0x0A]"
      by (auto simp: trimmed_def clean_def list_all_iff)
    with e(1) False show False by (auto simp: whitespace_def append_eq_Cons_conv)
  qed
  then have "trim (s @ [CHR 0x0A]) = trim_end (s @ [CHR 0x0A])"
    by (simp add: trim_def trim_start_def clean_strip_any)
  also have "\<dots> = trim_end s"
    by (simp add: trim_end_def strip_any.simps [of _ "CHR 0x0A # t" for t]) (simp add: whitespace_def)
  also have "\<dots> = s"
    using assms by (simp add: trim_end_def trimmed_def clean_strip_any)
  finally show ?thesis .
qed

section \<open>Decimal numbers\<close>

text \<open>\<^verbatim>\<open>format!("{n}")\<close> for an unsigned integer.\<close>

fun dec_str :: "nat \<Rightarrow> str" where
  "dec_str n =
     (if n < 10 then [char_of (48 + n)] else dec_str (n div 10) @ [char_of (48 + n mod 10)])"

declare dec_str.simps [simp del]

definition is_digit :: "char \<Rightarrow> bool" where
  "is_digit c \<longleftrightarrow> 48 \<le> (of_char c :: nat) \<and> (of_char c :: nat) \<le> 57"

definition digit_val :: "char \<Rightarrow> nat" where
  "digit_val c = of_char c - 48"

definition dec_val :: "str \<Rightarrow> nat" where
  "dec_val s = foldl (\<lambda>a c. 10 * a + digit_val c) 0 s"

definition u64_max :: nat where "u64_max = 2 ^ 64 - 1"
definition i64_max :: int where "i64_max = 2 ^ 63 - 1"
definition i64_min :: int where "i64_min = - (2 ^ 63)"

definition parse_digits :: "str \<Rightarrow> nat option" where
  "parse_digits s = (if s \<noteq> [] \<and> list_all is_digit s then Some (dec_val s) else None)"

text \<open>\<^verbatim>\<open>s.parse::<u64>()\<close>: an optional plus sign, then digits, in range.\<close>

definition parse_u64 :: "str \<Rightarrow> u64 option" where
  "parse_u64 s =
     (case parse_digits (if prefix ''+'' s then tl s else s) of
        None \<Rightarrow> None
      | Some n \<Rightarrow> if n \<le> u64_max then Some (of_nat n) else None)"

text \<open>\<^verbatim>\<open>s.parse::<i64>()\<close>: an optional sign, then digits, in range. The result is an integer.\<close>

definition parse_i64 :: "str \<Rightarrow> int option" where
  "parse_i64 s =
     (let neg = prefix ''-'' s; body = (if neg \<or> prefix ''+'' s then tl s else s)
      in case parse_digits body of
           None \<Rightarrow> None
         | Some n \<Rightarrow>
             (let v = (if neg then - int n else int n)
              in if i64_min \<le> v \<and> v \<le> i64_max then Some v else None))"

definition saturating_mul :: "u64 \<Rightarrow> u64 \<Rightarrow> u64" where
  "saturating_mul a b = (if unat a * unat b \<le> u64_max then a * b else of_nat u64_max)"

definition i64_saturating_sub :: "int \<Rightarrow> int \<Rightarrow> int" where
  "i64_saturating_sub a b = max i64_min (min i64_max (a - b))"

text \<open>\<^verbatim>\<open>i64::try_from(n).unwrap_or(i64::MAX)\<close> for an unsigned \<open>n\<close>.\<close>

definition i64_from_u64 :: "u64 \<Rightarrow> int" where
  "i64_from_u64 n = (if uint n \<le> i64_max then uint n else i64_max)"

lemma digit_char: "d < 10 \<Longrightarrow> is_digit (char_of (48 + d)) \<and> digit_val (char_of (48 + d)) = d"
  by (simp add: is_digit_def digit_val_def of_char_of)

lemma dec_val_snoc: "dec_val (s @ [c]) = 10 * dec_val s + digit_val c"
  by (simp add: dec_val_def)

lemma dec_str_nonempty [simp]: "dec_str n \<noteq> []"
  by (subst dec_str.simps) simp

lemma dec_str_digits: "list_all is_digit (dec_str n)"
proof (induction n rule: dec_str.induct)
  case (1 n)
  then show ?case
    by (subst dec_str.simps) (auto simp: digit_char)
qed

lemma length_dec_str: "0 < k \<Longrightarrow> n < 10 ^ k \<Longrightarrow> length (dec_str n) \<le> k"
proof (induction k arbitrary: n)
  case (Suc k)
  show ?case
  proof (cases "n < 10")
    case False
    with Suc.prems have "0 < k" and "n div 10 < 10 ^ k" by (cases k, auto)
    with Suc.IH have "length (dec_str (n div 10)) \<le> k" by blast
    with False show ?thesis by (subst dec_str.simps) simp
  qed (subst dec_str.simps, simp)
qed simp

lemma dec_val_dec_str [simp]: "dec_val (dec_str n) = n"
proof (induction n rule: dec_str.induct)
  case (1 n)
  show ?case
  proof (cases "n < 10")
    case True
    then show ?thesis
      by (subst dec_str.simps) (simp add: dec_val_def digit_char)
  next
    case False
    with 1 have "dec_val (dec_str (n div 10)) = n div 10" by simp
    with False show ?thesis
      by (subst dec_str.simps) (simp add: dec_val_snoc digit_char)
  qed
qed

lemma parse_digits_dec_str [simp]: "parse_digits (dec_str n) = Some n"
  by (simp add: parse_digits_def dec_str_digits)

lemma digit_not_in_dec_str: "\<not> is_digit c \<Longrightarrow> c \<notin> set (dec_str n)"
  using dec_str_digits [of n] by (auto simp: list_all_iff)

lemma digit_graphic: "is_digit c \<Longrightarrow> graphic c"
  by (simp add: is_digit_def graphic_def)

lemma dec_str_graphic: "graphic (hd (dec_str n))" "graphic (last (dec_str n))"
  using dec_str_digits [of n] dec_str_nonempty [of n]
  by (simp_all add: digit_graphic list_all_iff)

lemma trimmed_dec_str: "trimmed (dec_str n)"
  using dec_str_graphic [of n] by (intro trimmed_graphic) simp_all

lemma is_digit_lits [simp]:
  "\<not> is_digit CHR '':''" "\<not> is_digit CHR ''+''" "\<not> is_digit CHR ''-''" "\<not> is_digit CHR '',''"
  "\<not> is_digit CHR ''/''" "\<not> is_digit CHR '';''"
  by (simp_all add: is_digit_def)

lemma dec_str_no_sign: "\<not> prefix ''+'' (dec_str n)" "\<not> prefix ''-'' (dec_str n)"
  using digit_not_in_dec_str [of "CHR ''+''" n] digit_not_in_dec_str [of "CHR ''-''" n]
  by (cases "dec_str n"; auto)+

lemma parse_u64_dec_str: "n \<le> u64_max \<Longrightarrow> parse_u64 (dec_str n) = Some (of_nat n)"
  by (simp add: parse_u64_def dec_str_no_sign)

lemma parse_i64_dec_str: "int n \<le> i64_max \<Longrightarrow> parse_i64 (dec_str n) = Some (int n)"
  by (simp add: parse_i64_def dec_str_no_sign i64_min_def Let_def)

lemma parse_i64_range: "parse_i64 s = Some v \<Longrightarrow> i64_min \<le> v \<and> v \<le> i64_max"
  by (auto simp: parse_i64_def Let_def split: option.splits if_splits)

lemma unat_saturating_mul: "unat (saturating_mul a b) = min (unat a * unat b) u64_max"
proof (cases "unat a * unat b \<le> u64_max")
  case True
  then have "unat a * unat b < 2 ^ LENGTH(64)" by (simp add: u64_max_def)
  with True show ?thesis
    by (simp add: saturating_mul_def unat_word_ariths(2))
next
  case False
  then show ?thesis by (simp add: saturating_mul_def u64_max_def)
qed

section \<open>Interfaces\<close>

text \<open>
  A printer and a parser of one text format: what was printed from an admissible value parses
  back to that value. Provided by the session strings and the process environment block.
\<close>

locale text_codec =
  fixes enc :: "'a \<Rightarrow> str" and dec :: "str \<Rightarrow> 'b" and view :: "'a \<Rightarrow> 'b" and ok :: "'a \<Rightarrow> bool"
  assumes dec_enc: "ok x \<Longrightarrow> dec (enc x) = view x"
begin

lemma enc_determines: "ok x \<Longrightarrow> ok y \<Longrightarrow> enc x = enc y \<Longrightarrow> view x = view y"
  using dec_enc by metis

end

text \<open>A machine with an inductive invariant: the invariant holds in every reachable state.\<close>

locale inv_machine =
  fixes init :: "'s \<Rightarrow> bool" and step :: "'s \<Rightarrow> 's \<Rightarrow> bool" and inv :: "'s \<Rightarrow> bool"
  assumes inv_init: "init s \<Longrightarrow> inv s"
    and inv_step: "step s t \<Longrightarrow> inv s \<Longrightarrow> inv t"
begin

lemma inv_steps: "step\<^sup>*\<^sup>* s t \<Longrightarrow> inv s \<Longrightarrow> inv t"
  by (induction rule: rtranclp_induct) (auto intro: inv_step)

lemma inv_reachable: "init s \<Longrightarrow> step\<^sup>*\<^sup>* s t \<Longrightarrow> inv t"
  using inv_init inv_steps by blast

end

end
