(* ===== verification/Utf8.thy ===== *)
theory Utf8
  imports Prov_Prelude
begin

text \<open>
  UTF-8 in the Rust standard library: \<^verbatim>\<open>str::from_utf8\<close> / \<^verbatim>\<open>String::from_utf8\<close> (accept exactly
  the well-formed byte sequences of the Unicode standard's table 3-7) and
  \<^verbatim>\<open>String::from_utf8_lossy\<close> / \<^verbatim>\<open>Path::to_string_lossy\<close> / \<^verbatim>\<open>Path::display\<close> (replace every maximal
  ill-formed chunk by U+FFFD). \<open>utf8_next\<close> is one round of the standard library's chunk iterator:
  whether the bytes at the front form a character, and how many bytes that round consumes.

  The lemmas: validity is closed under concatenation and under cutting a string at a character
  boundary, so every piece the program cuts at an ASCII byte or trims is valid again; lossy
  decoding always gives a valid string and leaves a valid one alone.
\<close>

definition byte_at :: "bytes \<Rightarrow> nat \<Rightarrow> nat" where
  "byte_at s i = (if i < length s then of_char (s ! i) else 0)"

definition is_cont :: "nat \<Rightarrow> bool" where
  "is_cont b \<longleftrightarrow> 0x80 \<le> b \<and> b \<le> 0xBF"

definition utf8_char_width :: "nat \<Rightarrow> nat" where
  "utf8_char_width b =
     (if b < 0x80 then 1 else if 0xC2 \<le> b \<and> b \<le> 0xDF then 2
      else if 0xE0 \<le> b \<and> b \<le> 0xEF then 3 else if 0xF0 \<le> b \<and> b \<le> 0xF4 then 4 else 0)"

definition second_ok :: "nat \<Rightarrow> nat \<Rightarrow> bool" where
  "second_ok b c \<longleftrightarrow>
     is_cont c \<and> (b = 0xE0 \<longrightarrow> 0xA0 \<le> c) \<and> (b = 0xED \<longrightarrow> c \<le> 0x9F) \<and>
     (b = 0xF0 \<longrightarrow> 0x90 \<le> c) \<and> (b = 0xF4 \<longrightarrow> c \<le> 0x8F)"

definition utf8_next :: "bytes \<Rightarrow> bool \<times> nat" where
  "utf8_next s =
     (let b = byte_at s 0; w = utf8_char_width b
      in if w = 1 then (True, 1)
         else if w = 0 \<or> \<not> second_ok b (byte_at s 1) then (False, 1)
         else if w = 2 then (True, 2)
         else if \<not> is_cont (byte_at s 2) then (False, 2)
         else if w = 3 then (True, 3)
         else if \<not> is_cont (byte_at s 3) then (False, 3)
         else (True, 4))"

lemma utf8_next_pos [simp]: "0 < snd (utf8_next s)"
  by (auto simp: utf8_next_def Let_def)

fun utf8_valid :: "bytes \<Rightarrow> bool" where
  "utf8_valid [] = True"
| "utf8_valid (x # xs) =
     (let (good, n) = utf8_next (x # xs) in good \<and> utf8_valid (drop (n - 1) xs))"

definition replacement_char :: bytes where
  "replacement_char = [CHR 0xEF, CHR 0xBF, CHR 0xBD]"

fun utf8_lossy :: "bytes \<Rightarrow> str" where
  "utf8_lossy [] = []"
| "utf8_lossy (x # xs) =
     (let (good, n) = utf8_next (x # xs)
      in (if good then take n (x # xs) else replacement_char) @ utf8_lossy (drop (n - 1) xs))"

declare utf8_valid.simps(2) [simp del] utf8_lossy.simps(2) [simp del]

text \<open>\<^verbatim>\<open>String::from_utf8(v).ok()\<close>\<close>

definition from_utf8 :: "bytes \<Rightarrow> str option" where
  "from_utf8 s = (if utf8_valid s then Some s else None)"

lemma utf8_valid_unfold:
  "s \<noteq> [] \<Longrightarrow> utf8_valid s \<longleftrightarrow> fst (utf8_next s) \<and> utf8_valid (drop (snd (utf8_next s)) s)"
  using utf8_next_pos [of s]
  by (cases s) (auto simp: utf8_valid.simps(2) drop_Cons' simp del: utf8_next_pos split: prod.splits)

lemma utf8_lossy_unfold:
  "s \<noteq> [] \<Longrightarrow> utf8_lossy s =
     (if fst (utf8_next s) then take (snd (utf8_next s)) s else replacement_char)
       @ utf8_lossy (drop (snd (utf8_next s)) s)"
  using utf8_next_pos [of s]
  by (cases s) (auto simp: utf8_lossy.simps(2) drop_Cons' simp del: utf8_next_pos split: prod.splits)

lemma not_cont_0 [simp]: "\<not> is_cont 0"
  by (simp add: is_cont_def)

lemma not_second_0 [simp]: "\<not> second_ok b 0"
  by (simp add: second_ok_def)

lemma byte_at_bound: "is_cont (byte_at s i) \<Longrightarrow> i < length s"
  by (auto simp: byte_at_def split: if_splits)

lemma byte_at_append:
  "byte_at (a @ b) i = (if i < length a then byte_at a i else byte_at b (i - length a))"
  by (auto simp: byte_at_def nth_append)

lemma second_ok_cont: "second_ok b c \<Longrightarrow> is_cont c"
  by (simp add: second_ok_def)

text \<open>A good round consumes bytes that are all there, and all but the first are continuation bytes.\<close>

lemma utf8_next_good:
  assumes "fst (utf8_next s)" and "s \<noteq> []"
  shows "snd (utf8_next s) \<le> length s"
    and "0 < i \<Longrightarrow> i < snd (utf8_next s) \<Longrightarrow> is_cont (byte_at s i)"
proof -
  show cont: "is_cont (byte_at s i)" if "0 < i" "i < snd (utf8_next s)" for i
  proof -
    have "snd (utf8_next s) \<le> 4" by (auto simp: utf8_next_def Let_def)
    with that have "i = 1 \<or> i = 2 \<or> i = 3" by linarith
    then show ?thesis
      using assms that
      by (elim disjE) (auto simp: utf8_next_def Let_def dest: second_ok_cont split: if_splits)
  qed
  show "snd (utf8_next s) \<le> length s"
  proof (cases "snd (utf8_next s) = 1")
    case True
    with assms(2) show ?thesis by (cases s) auto
  next
    case False
    let ?i = "snd (utf8_next s) - 1"
    have "is_cont (byte_at s ?i)"
      using False utf8_next_pos [of s] by (intro cont) linarith+
    then have "?i < length s" by (rule byte_at_bound)
    then show ?thesis by linarith
  qed
qed

lemma utf8_next_cong:
  assumes "\<And>i. i < snd (utf8_next s) \<Longrightarrow> byte_at t i = byte_at s i" and "fst (utf8_next s)"
  shows "utf8_next t = utf8_next s"
proof -
  have "snd (utf8_next s) = 1 \<or> snd (utf8_next s) = 2 \<or> snd (utf8_next s) = 3 \<or> snd (utf8_next s) = 4"
    by (auto simp: utf8_next_def Let_def)
  moreover note assms(1)[of 0] assms(1)[of 1] assms(1)[of 2] assms(1)[of 3] assms(2)
  ultimately show ?thesis
    by (auto simp: utf8_next_def Let_def split: if_splits)
qed

lemma utf8_next_append:
  "a \<noteq> [] \<Longrightarrow> fst (utf8_next a) \<Longrightarrow> utf8_next (a @ b) = utf8_next a"
  using utf8_next_good(1) [of a] by (intro utf8_next_cong) (auto simp: byte_at_append)

lemma utf8_valid_append: "utf8_valid a \<Longrightarrow> utf8_valid b \<Longrightarrow> utf8_valid (a @ b)"
proof (induction "length a" arbitrary: a rule: less_induct)
  case less
  show ?case
  proof (cases "a = []")
    case False
    with less.prems have good: "fst (utf8_next a)" "utf8_valid (drop (snd (utf8_next a)) a)"
      by (simp_all add: utf8_valid_unfold)
    have "utf8_valid (drop (snd (utf8_next a)) a @ b)"
      using False good less.prems by (intro less.hyps) (auto intro: diff_less)
    then show ?thesis
      using False good utf8_next_good(1) [of a]
      by (simp add: utf8_valid_unfold utf8_next_append)
  qed (use less in simp)
qed

text \<open>Cutting a valid string in front of a byte that is not a continuation byte.\<close>

lemma utf8_valid_cut:
  assumes "utf8_valid (a @ b)" and "\<not> is_cont (byte_at b 0)"
  shows "utf8_valid a \<and> utf8_valid b"
  using assms(1)
proof (induction "length a" arbitrary: a rule: less_induct)
  case less
  show ?case
  proof (cases "a = []")
    case True
    with less.prems show ?thesis by simp
  next
    case False
    let ?n = "snd (utf8_next (a @ b))"
    from False less.prems have good: "fst (utf8_next (a @ b))" "utf8_valid (drop ?n (a @ b))"
      by (simp_all add: utf8_valid_unfold)
    have n: "?n \<le> length a"
    proof (rule ccontr)
      assume "\<not> ?n \<le> length a"
      then have "is_cont (byte_at (a @ b) (length a))"
        using False good by (intro utf8_next_good(2)) auto
      with assms(2) show False by (simp add: byte_at_append)
    qed
    have eq: "utf8_next a = utf8_next (a @ b)"
      using n good by (intro utf8_next_cong) (auto simp: byte_at_append)
    have "utf8_valid (drop ?n a) \<and> utf8_valid b"
      using False good n by (intro less.hyps) (auto intro: diff_less)
    with False good eq show ?thesis by (simp add: utf8_valid_unfold)
  qed
qed

lemma ascii_valid: "list_all (\<lambda>c. (of_char c :: nat) < 0x80) s \<Longrightarrow> utf8_valid s"
proof (induction s)
  case (Cons c s)
  then have "utf8_next (c # s) = (True, 1)"
    by (simp add: utf8_next_def byte_at_def utf8_char_width_def)
  with Cons show ?case by (simp add: utf8_valid_unfold)
qed simp

lemma utf8_lossy_valid [simp]: "utf8_valid s \<Longrightarrow> utf8_lossy s = s"
proof (induction "length s" arbitrary: s rule: less_induct)
  case less
  show ?case
  proof (cases "s = []")
    case False
    with less.prems have good: "fst (utf8_next s)" "utf8_valid (drop (snd (utf8_next s)) s)"
      by (simp_all add: utf8_valid_unfold)
    have "utf8_lossy (drop (snd (utf8_next s)) s) = drop (snd (utf8_next s)) s"
      using False good by (intro less.hyps) (auto intro: diff_less)
    with False good show ?thesis by (simp add: utf8_lossy_unfold)
  qed simp
qed

lemma replacement_valid: "utf8_valid replacement_char"
  by (simp add: replacement_char_def utf8_valid.simps(2) utf8_next_def utf8_char_width_def byte_at_def
      second_ok_def is_cont_def Let_def)

text \<open>A good round's bytes are a valid string on their own.\<close>

lemma utf8_round_valid:
  assumes "s \<noteq> []" and "fst (utf8_next s)"
  shows "utf8_valid (take (snd (utf8_next s)) s)"
proof -
  let ?t = "take (snd (utf8_next s)) s"
  have "utf8_next ?t = utf8_next s"
    using assms by (intro utf8_next_cong) (auto simp: byte_at_def)
  moreover have "?t \<noteq> []" using assms utf8_next_pos [of s] by (simp del: utf8_next_pos)
  ultimately show ?thesis using assms by (simp add: utf8_valid_unfold)
qed

lemma valid_utf8_lossy: "utf8_valid (utf8_lossy s)"
proof (induction "length s" arbitrary: s rule: less_induct)
  case less
  show ?case
  proof (cases "s = []")
    case False
    then have "utf8_valid (utf8_lossy (drop (snd (utf8_next s)) s))"
      by (intro less.hyps) (auto intro: diff_less)
    with False show ?thesis
      by (auto simp: utf8_lossy_unfold intro!: utf8_valid_append utf8_round_valid replacement_valid)
  qed simp
qed

lemma from_utf8_Some [simp]: "utf8_valid s \<Longrightarrow> from_utf8 s = Some s"
  by (simp add: from_utf8_def)


section \<open>Pieces of valid strings\<close>

lemma utf8_valid_tail: "utf8_valid (e @ t) \<Longrightarrow> utf8_valid e \<Longrightarrow> utf8_valid t"
proof (induction "length e" arbitrary: e rule: less_induct)
  case less
  show ?case
  proof (cases "e = []")
    case True
    with less.prems show ?thesis by simp
  next
    case False
    with less.prems have good: "fst (utf8_next e)" "utf8_valid (drop (snd (utf8_next e)) e)"
      by (simp_all add: utf8_valid_unfold)
    have "utf8_valid (drop (snd (utf8_next e)) e @ t)"
      using False good less.prems(1) utf8_next_good(1) [of e]
      by (simp add: utf8_valid_unfold utf8_next_append)
    then show ?thesis
      using False good(2)
      by (intro less.hyps [of "drop (snd (utf8_next e)) e"]) (auto intro: diff_less)
  qed
qed

definition ascii :: "char \<Rightarrow> bool" where
  "ascii c \<longleftrightarrow> (of_char c :: nat) < 0x80"

lemma ascii_not_cont: "ascii c \<Longrightarrow> \<not> is_cont (byte_at (c # s) 0)"
  by (simp add: ascii_def is_cont_def byte_at_def)

lemma utf8_valid_ascii_Cons [simp]: "ascii c \<Longrightarrow> utf8_valid (c # s) = utf8_valid s"
proof -
  assume "ascii c"
  then have "utf8_next (c # s) = (True, 1)"
    by (simp add: ascii_def utf8_next_def byte_at_def utf8_char_width_def)
  then show ?thesis by (simp add: utf8_valid_unfold)
qed

lemma utf8_valid_split_char:
  "ascii c \<Longrightarrow> utf8_valid (a @ c # b) \<longleftrightarrow> utf8_valid a \<and> utf8_valid b"
  using utf8_valid_cut [of a "c # b"] utf8_valid_append [of a "c # b"] by (auto simp: ascii_not_cont)

lemma utf8_valid_join:
  "ascii c \<Longrightarrow> utf8_valid (join_with [c] xs) \<longleftrightarrow> list_all utf8_valid xs"
proof (induction xs)
  case (Cons x xs)
  then show ?case
    by (cases "xs = []") (auto simp: join_Cons utf8_valid_split_char)
qed simp

lemma utf8_valid_split:
  "ascii c \<Longrightarrow> utf8_valid s \<Longrightarrow> x \<in> set (split_on c s) \<Longrightarrow> utf8_valid x"
  using utf8_valid_join [of c "split_on c s"] by (simp add: join_split list_all_iff)

lemma strip_any_preserves:
  assumes "\<forall>e \<in> set es. \<forall>t. P (e @ t) \<longrightarrow> P t" and "P s"
  shows "P (strip_any es s)"
  using assms
proof (induction es s rule: strip_any.induct)
  case (1 es s)
  show ?case
  proof (cases "find (\<lambda>e. e \<noteq> [] \<and> prefix e s) es")
    case None
    with 1 show ?thesis by (subst strip_any.simps) simp
  next
    case (Some e)
    then have "e \<in> set es" and "prefix e s" by (auto simp: find_Some_iff)
    then obtain t where t: "s = e @ t" by (auto simp: prefix_def)
    have "P t" using \<open>e \<in> set es\<close> 1(2,3) t by blast
    then have "P (drop (length e) s)" by (simp add: t)
    then have "P (strip_any es (drop (length e) s))" by (rule 1(1) [OF Some 1(2)])
    with Some show ?thesis by (subst strip_any.simps) simp
  qed
qed

lemma whitespace_valid: "e \<in> set whitespace \<Longrightarrow> utf8_valid e"
  by (auto simp: whitespace_def utf8_valid.simps(2) utf8_next_def utf8_char_width_def byte_at_def
      second_ok_def is_cont_def Let_def)

lemma whitespace_lead: "e \<in> set whitespace \<Longrightarrow> \<not> is_cont (byte_at e 0)"
  by (auto simp: whitespace_def byte_at_def is_cont_def)

lemma utf8_valid_trim: "utf8_valid s \<Longrightarrow> utf8_valid (trim s)"
proof -
  assume "utf8_valid s"
  then have "utf8_valid (trim_start s)"
    unfolding trim_start_def
    by (rule strip_any_preserves [rotated]) (blast intro: utf8_valid_tail whitespace_valid)
  moreover have "utf8_valid (rev t)"
    if "e \<in> set (map rev whitespace)" and "utf8_valid (rev (e @ t))" for e t
  proof -
    from that(1) obtain w where w: "w \<in> set whitespace" "rev e = w" by auto
    with that(2) have "utf8_valid (rev t @ w)" by simp
    with w(1) show ?thesis by (auto dest: utf8_valid_cut whitespace_lead)
  qed
  ultimately show ?thesis
    unfolding trim_def trim_end_def
    using strip_any_preserves [of "map rev whitespace" "\<lambda>s. utf8_valid (rev s)" "rev (trim_start s)"]
    by auto
qed

lemma ascii_lits [simp]:
  "ascii CHR '',''" "ascii CHR '';''" "ascii CHR '':''" "ascii CHR ''/''" "ascii CHR ''=''"
  "ascii CHR 0x00" "ascii CHR 0x0A"
  by (simp_all add: ascii_def)

lemma utf8_valid_dec_str [simp]: "utf8_valid (dec_str n)"
  using dec_str_digits [of n]
  by (intro ascii_valid) (auto simp: list_all_iff is_digit_def)

lemmas utf8_facts =
  utf8_valid_append utf8_valid_split utf8_valid_trim utf8_valid_join utf8_valid_dec_str

end
