(* ===== verification/Unix_Path.thy ===== *)
theory Unix_Path
  imports Utf8
begin

text \<open>
  Unix paths as Rust's \<^verbatim>\<open>std::path\<close> treats them. A \<^verbatim>\<open>PathBuf\<close> is a byte string, but two paths are
  equal (and hash alike) when their \<^emph>\<open>components\<close> agree: repeated slashes, a trailing slash and
  interior \<^verbatim>\<open>.\<close> segments do not count. A \<^verbatim>\<open>HashMap<PathBuf, _>\<close> is therefore a map keyed by the
  component list, \<open>components p\<close>.

  Modelled: \<^verbatim>\<open>Path::components\<close>, \<^verbatim>\<open>Path::join\<close> and \<^verbatim>\<open>Path::strip_prefix\<close>. The lemmas at the end say that
  joining an ordinary file name appends one component, and that stripping a base directory off
  a path built by joining names onto it gives back exactly those names, whatever the spelling
  of the base.
\<close>

type_synonym path = string

datatype path_comp = RootDir | CurDir | ParentDir | Normal string

type_synonym path_key = "path_comp list"

definition has_root :: "path \<Rightarrow> bool" where
  "has_root p \<longleftrightarrow> prefix ''/'' p"

text \<open>The slash-separated segments after the root slash, if there is one.\<close>

definition segments :: "path \<Rightarrow> string list" where
  "segments p = split_on CHR ''/'' (if has_root p then tl p else p)"

definition junk :: "string \<Rightarrow> bool" where
  "junk s \<longleftrightarrow> s = '''' \<or> s = ''.''"

definition comp_of :: "string \<Rightarrow> path_comp" where
  "comp_of s = (if s = ''..'' then ParentDir else Normal s)"

definition body_comps :: "string list \<Rightarrow> path_comp list" where
  "body_comps segs = map comp_of (filter (\<lambda>s. \<not> junk s) segs)"

definition leading_cur :: "path \<Rightarrow> bool" where
  "leading_cur p \<longleftrightarrow> \<not> has_root p \<and> hd (segments p) = ''.''"

definition components :: "path \<Rightarrow> path_key" where
  "components p =
     (if has_root p then [RootDir] else if leading_cur p then [CurDir] else [])
       @ body_comps (segments p)"

definition path_join :: "path \<Rightarrow> path \<Rightarrow> path" where
  "path_join p q =
     (if has_root q then q
      else if p = [] \<or> last p = CHR ''/'' then p @ q
      else p @ ''/'' @ q)"

fun strip_segs :: "path_comp list \<Rightarrow> string list \<Rightarrow> string list option" where
  "strip_segs [] segs = Some segs"
| "strip_segs (c # cs) [] = None"
| "strip_segs (c # cs) (s # ss) =
     (if junk s then strip_segs (c # cs) ss
      else if comp_of s = c then strip_segs cs ss else None)"

definition drop_trailing_junk :: "string list \<Rightarrow> string list" where
  "drop_trailing_junk segs = rev (dropWhile junk (rev segs))"

text \<open>\<^verbatim>\<open>Components::as_path\<close> of what is left after at least one component was taken off the front.\<close>

definition rest_path :: "string list \<Rightarrow> path" where
  "rest_path segs = join_with ''/'' (drop_trailing_junk (dropWhile junk segs))"

definition whole_path :: "path \<Rightarrow> path" where
  "whole_path p =
     (if has_root p then ''/'' @ join_with ''/'' (drop_trailing_junk (segments p))
      else if leading_cur p then join_with ''/'' (''.'' # drop_trailing_junk (tl (segments p)))
      else join_with ''/'' (drop_trailing_junk (segments p)))"

text \<open>\<^verbatim>\<open>p.strip_prefix(base).ok()\<close>\<close>

definition strip_prefix :: "path \<Rightarrow> path \<Rightarrow> path option" where
  "strip_prefix p base =
     (case components base of
        [] \<Rightarrow> Some (whole_path p)
      | c # cs \<Rightarrow>
          if has_root p then
            (if c = RootDir then map_option rest_path (strip_segs cs (segments p)) else None)
          else if leading_cur p then
            (if c = CurDir then map_option rest_path (strip_segs cs (tl (segments p))) else None)
          else map_option rest_path (strip_segs (c # cs) (segments p)))"

text \<open>A directory-entry name: what the kernel passes as \<^verbatim>\<open>name\<close> in a FUSE request.\<close>

definition file_name :: "string \<Rightarrow> bool" where
  "file_name n \<longleftrightarrow> n \<noteq> [] \<and> CHR ''/'' \<notin> set n \<and> n \<noteq> ''.'' \<and> n \<noteq> ''..''"

definition path_of_names :: "path \<Rightarrow> string list \<Rightarrow> path" where
  "path_of_names base names = foldl path_join base names"

lemma file_name_no_root: "file_name n \<Longrightarrow> \<not> has_root n"
  by (cases n) (auto simp: file_name_def has_root_def)

lemma file_name_not_junk: "file_name n \<Longrightarrow> \<not> junk n"
  by (auto simp: file_name_def junk_def)

lemma file_name_comp: "file_name n \<Longrightarrow> comp_of n = Normal n"
  by (simp add: file_name_def comp_of_def)

text \<open>The segments of a joined path: the base's, less a trailing empty one, then the name.\<close>

definition base_segs :: "path \<Rightarrow> string list" where
  "base_segs p = (if last (segments p) = [] then butlast (segments p) else segments p)"

lemma split_on_last_empty: "last (split_on c s) = [] \<longleftrightarrow> s = [] \<or> last s = c"
proof (induction s)
  case (Cons x s)
  obtain y ys where y: "split_on c s = y # ys" by (cases "split_on c s") auto
  have "s = []" if "ys = []" "y = []"
    using that y join_split [of c s] by simp
  with y Cons show ?case by auto
qed simp

lemma segments_nonempty [simp]: "segments p \<noteq> []"
  by (simp add: segments_def)

lemma has_root_join: "file_name n \<Longrightarrow> has_root (path_join p n) = has_root p"
  using file_name_no_root [of n] by (cases p) (auto simp: path_join_def has_root_def)

lemma segments_join:
  assumes "file_name n"
  shows "segments (path_join p n) = base_segs p @ [n]"
proof -
  let ?q = "if has_root p then tl p else p"
  have n: "split_on CHR ''/'' n = [n]" "\<not> has_root n"
    using assms by (auto simp: file_name_def split_on_no_sep file_name_no_root)
  have p: "p = (if has_root p then ''/'' @ ?q else ?q)"
    by (cases p) (auto simp: has_root_def)
  have seg: "segments p = split_on CHR ''/'' ?q" by (simp add: segments_def)
  have "segments (path_join p n) =
      split_on CHR ''/'' (if has_root p then tl (path_join p n) else path_join p n)"
    by (simp add: segments_def has_root_join [OF assms])
  also have "(if has_root p then tl (path_join p n) else path_join p n) =
      (if ?q = [] \<or> last ?q = CHR ''/'' then ?q @ n else ?q @ CHR ''/'' # n)"
    using n(2) p by (cases p) (auto simp: path_join_def has_root_def split: if_splits)
  also have "split_on CHR ''/'' \<dots> = base_segs p @ [n]"
  proof (cases "?q = [] \<or> last ?q = CHR ''/''")
    case True
    then have "?q = [] \<or> (\<exists>r. ?q = r @ ''/'')"
      by (metis append_butlast_last_id)
    then show ?thesis
      using True n seg by (auto simp: base_segs_def split_on_append)
  next
    case False
    then show ?thesis
      using n seg by (auto simp: base_segs_def split_on_append split_on_last_empty)
  qed
  finally show ?thesis .
qed

lemma body_comps_base_segs [simp]: "body_comps (base_segs p) = body_comps (segments p)"
proof (cases "last (segments p) = []")
  case True
  then have "segments p = base_segs p @ [[]]"
    by (metis append_butlast_last_id base_segs_def segments_nonempty)
  then have "body_comps (segments p) = body_comps (base_segs p @ [[]])" by simp
  then show ?thesis by (simp add: body_comps_def junk_def)
qed (simp add: base_segs_def)

lemma hd_base_segs: "leading_cur p \<Longrightarrow> base_segs p \<noteq> [] \<and> hd (base_segs p) = ''.''"
  using segments_nonempty [of p]
  by (cases "segments p" rule: rev_cases) (auto simp: leading_cur_def base_segs_def hd_append split: if_splits)

lemma leading_cur_join:
  assumes "file_name n"
  shows "leading_cur (path_join p n) = leading_cur p"
proof (cases "has_root p")
  case True
  then show ?thesis by (simp add: leading_cur_def has_root_join assms)
next
  case False
  have "hd (base_segs p @ [n]) = ''.'' \<longleftrightarrow> hd (segments p) = ''.''"
    using segments_nonempty [of p] assms
    by (cases "segments p" rule: rev_cases) (auto simp: base_segs_def hd_append file_name_def)
  with False show ?thesis
    by (simp add: leading_cur_def has_root_join segments_join assms)
qed

lemma body_comps_snoc: "file_name n \<Longrightarrow> body_comps (segs @ [n]) = body_comps segs @ [Normal n]"
  by (simp add: body_comps_def file_name_not_junk file_name_comp)

theorem components_join:
  "file_name n \<Longrightarrow> components (path_join p n) = components p @ [Normal n]"
  by (simp add: components_def has_root_join leading_cur_join segments_join body_comps_snoc)

lemma components_path_of_names:
  "list_all file_name ns \<Longrightarrow> components (path_of_names base ns) = components base @ map Normal ns"
  by (induction ns rule: rev_induct) (auto simp: path_of_names_def components_join)

lemma components_nonempty: "p \<noteq> [] \<Longrightarrow> components p \<noteq> []"
proof (cases "has_root p \<or> leading_cur p")
  case False
  assume "p \<noteq> []"
  with False have "hd p \<noteq> CHR ''/''" by (cases p) (auto simp: has_root_def)
  with \<open>p \<noteq> []\<close> have "hd (split_on CHR ''/'' p) \<noteq> []"
    by (cases p) (auto split: list.splits)
  with False have "\<not> junk (hd (segments p))"
    by (auto simp: junk_def leading_cur_def segments_def)
  then show ?thesis
    by (cases "segments p") (auto simp: components_def body_comps_def)
qed (auto simp: components_def)

text \<open>Stripping the components of some segments off those segments leaves only junk in front.\<close>

lemma strip_segs_body:
  "\<exists>j. strip_segs (body_comps segs) (segs @ rest) = Some (j @ rest) \<and> list_all junk j"
proof (induction segs)
  case (Cons s segs)
  show ?case
  proof (cases "junk s")
    case True
    then have eq: "body_comps (s # segs) = body_comps segs" by (simp add: body_comps_def)
    show ?thesis
    proof (cases "body_comps segs")
      case Nil
      then have "list_all junk (s # segs)"
        using True by (auto simp: body_comps_def filter_empty_conv list_all_iff)
      with Nil eq show ?thesis by (intro exI [of _ "s # segs"]) simp
    next
      case (Cons c cs)
      with Cons.IH eq True show ?thesis by (simp add: Cons)
    qed
  next
    case False
    with Cons show ?thesis by (simp add: body_comps_def)
  qed
qed (simp add: body_comps_def)

lemma dropWhile_junk: "list_all junk j \<Longrightarrow> dropWhile junk (j @ xs) = dropWhile junk xs"
  by (induction j) auto

lemma rest_path_names:
  assumes "list_all junk j" and "list_all file_name ns"
  shows "rest_path (j @ ns) = join_with ''/'' ns"
proof -
  have "dropWhile junk ns = ns"
    using assms(2) by (cases ns) (auto simp: file_name_not_junk)
  moreover have "dropWhile junk (rev ns) = rev ns"
    using assms(2) by (cases ns rule: rev_cases) (auto simp: file_name_not_junk)
  ultimately show ?thesis
    using assms(1) by (simp add: rest_path_def drop_trailing_junk_def dropWhile_junk)
qed


lemma segments_path_of_names:
  assumes "list_all file_name ns" and "ns \<noteq> []"
  shows "segments (path_of_names base ns) = base_segs base @ ns"
  using assms
proof (induction ns rule: rev_induct)
  case (snoc n ns)
  show ?case
  proof (cases "ns = []")
    case True
    with snoc show ?thesis by (simp add: path_of_names_def segments_join)
  next
    case False
    with snoc have segs: "segments (path_of_names base ns) = base_segs base @ ns" by simp
    have "last ns \<noteq> []"
      using snoc.prems False by (cases ns rule: rev_cases) (auto simp: file_name_def)
    with segs False have "base_segs (path_of_names base ns) = base_segs base @ ns"
      by (simp add: base_segs_def)
    with snoc.prems show ?thesis by (simp add: path_of_names_def segments_join)
  qed
qed simp

lemma has_root_path_of_names: "list_all file_name ns \<Longrightarrow> has_root (path_of_names base ns) = has_root base"
  by (induction ns rule: rev_induct) (auto simp: path_of_names_def has_root_join)

lemma leading_cur_path_of_names:
  "list_all file_name ns \<Longrightarrow> leading_cur (path_of_names base ns) = leading_cur base"
  by (induction ns rule: rev_induct) (auto simp: path_of_names_def leading_cur_join)

text \<open>
  Names joined onto a non-empty base directory come back when the base is stripped, joined by
  single slashes: the relative path does not depend on how the base is written.
\<close>

theorem strip_prefix_path_of_names:
  assumes "base \<noteq> []" and "list_all file_name ns" and "ns \<noteq> []"
  shows "strip_prefix (path_of_names base ns) base = Some (join_with ''/'' ns)"
proof -
  note names = segments_path_of_names [OF assms(2,3), of base]
    has_root_path_of_names [OF assms(2), of base] leading_cur_path_of_names [OF assms(2), of base]
  obtain j where j: "strip_segs (body_comps (base_segs base)) (base_segs base @ ns) = Some (j @ ns)"
    "list_all junk j" using strip_segs_body by blast
  show ?thesis
  proof (cases "has_root base")
    case True
    then show ?thesis
      using j names assms(2) by (simp add: strip_prefix_def components_def rest_path_names)
  next
    case noroot: False
    show ?thesis
    proof (cases "leading_cur base")
      case True
      then obtain ss where ss: "base_segs base = ''.'' # ss"
        using hd_base_segs [of base] by (cases "base_segs base") auto
      then have body: "body_comps (segments base) = body_comps ss"
        by (simp flip: body_comps_base_segs) (simp add: body_comps_def junk_def)
      obtain j' where "strip_segs (body_comps ss) (ss @ ns) = Some (j' @ ns)" "list_all junk j'"
        using strip_segs_body by blast
      with True noroot ss body names assms(2) show ?thesis
        by (simp add: strip_prefix_def components_def rest_path_names)
    next
      case False
      then have "body_comps (segments base) \<noteq> []"
        using components_nonempty [OF assms(1)] noroot by (simp add: components_def)
      then show ?thesis
        using False noroot j names assms(2)
        by (auto simp: strip_prefix_def components_def rest_path_names split: list.splits)
    qed
  qed
qed

lemma strip_prefix_self: "base \<noteq> [] \<Longrightarrow> strip_prefix base base \<noteq> None"
proof -
  assume base: "base \<noteq> []"
  obtain j where j: "strip_segs (body_comps (segments base)) (segments base) = Some j"
    using strip_segs_body [of "segments base" "[]"] by auto
  show ?thesis
  proof (cases "leading_cur base")
    case True
    then obtain ss where ss: "segments base = ''.'' # ss"
      by (cases "segments base") (auto simp: leading_cur_def)
    obtain j' where "strip_segs (body_comps ss) ss = Some j'"
      using strip_segs_body [of ss "[]"] by auto
    with True ss show ?thesis
      by (auto simp: strip_prefix_def components_def body_comps_def junk_def leading_cur_def)
  next
    case False
    with j components_nonempty [OF base] show ?thesis
      by (auto simp: strip_prefix_def components_def split: list.splits)
  qed
qed

end
