(* ===== verification/Os_Interface.thy ===== *)
theory Os_Interface
  imports Unix_Path
begin

text \<open>
  What the program calls but does not contain: the system calls of \<^verbatim>\<open>libc\<close>, the \<^verbatim>\<open>xattr\<close> and
  \<^verbatim>\<open>chrono\<close> crates, the file and clock functions of the standard library. They are the fields of
  one record \<open>os\<close>, a parameter of every definition that uses them. The state of the machine
  outside the process is a value of the type variable \<open>'w\<close> ("world"); a call that changes it
  returns the new one. Nothing is assumed of the fields; a property that relies on their
  documented behaviour says so in a hypothesis (\<open>xattr_backend\<close> below).

  \<^verbatim>\<open>io::Error\<close> is \<open>io_error\<close>: an error with an OS error number, or one without
  (\<^verbatim>\<open>CString::new\<close> on a string with an interior NUL byte, for instance).
\<close>

type_synonym errno = int

definition ENOENT :: errno where "ENOENT = 2"
definition EIO :: errno where "EIO = 5"
definition EBADF :: errno where "EBADF = 9"
definition EINVAL :: errno where "EINVAL = 22"
definition ENODATA :: errno where "ENODATA = 61"
definition EOPNOTSUPP :: errno where "EOPNOTSUPP = 95"

datatype io_error = Os errno | Custom

fun raw_os_error :: "io_error \<Rightarrow> errno option" where
  "raw_os_error (Os e) = Some e"
| "raw_os_error Custom = None"

text \<open>\<^verbatim>\<open>libc::stat\<close>: the signed fields are integers, the unsigned ones machine words.\<close>

record stat =
  st_mode :: u32
  st_size :: int
  st_blocks :: int
  st_nlink :: u64
  st_uid :: u32
  st_gid :: u32
  st_rdev :: u64
  st_blksize :: int
  st_atime :: int
  st_atime_nsec :: int
  st_mtime :: int
  st_mtime_nsec :: int
  st_ctime :: int
  st_ctime_nsec :: int

text \<open>What \<^verbatim>\<open>std::fs::read_dir\<close> yields for one entry; \<^verbatim>\<open>file_type()\<close> may fail.\<close>

datatype entry_type = IsDir | IsSymlink | IsFile | IsOther

record dir_entry =
  de_name :: string
  de_type :: "io_error + entry_type"

record 'w os =
  os_read_file :: "path \<Rightarrow> 'w \<Rightarrow> io_error + bytes"
  os_now_rfc3339 :: "'w \<Rightarrow> str"
  os_now_secs :: "'w \<Rightarrow> u64"
  os_xattr_get :: "path \<Rightarrow> str \<Rightarrow> 'w \<Rightarrow> io_error + bytes option"
  os_xattr_set :: "path \<Rightarrow> str \<Rightarrow> bytes \<Rightarrow> 'w \<Rightarrow> (io_error + unit) \<times> 'w"
  os_symlink_metadata :: "path \<Rightarrow> 'w \<Rightarrow> io_error + unit"
  os_is_dir :: "path \<Rightarrow> 'w \<Rightarrow> bool"
  os_read_dir :: "path \<Rightarrow> 'w \<Rightarrow> io_error + (io_error + dir_entry) list"
  os_lstat :: "path \<Rightarrow> 'w \<Rightarrow> errno + stat"
  os_open :: "path \<Rightarrow> u32 \<Rightarrow> u32 \<Rightarrow> 'w \<Rightarrow> (errno + nat) \<times> 'w"
  os_close :: "nat \<Rightarrow> 'w \<Rightarrow> 'w"
  os_pread :: "nat \<Rightarrow> nat \<Rightarrow> int \<Rightarrow> 'w \<Rightarrow> errno + bytes"
  os_pwrite :: "nat \<Rightarrow> bytes \<Rightarrow> int \<Rightarrow> 'w \<Rightarrow> (errno + nat) \<times> 'w"
  os_chmod :: "path \<Rightarrow> u32 \<Rightarrow> 'w \<Rightarrow> (errno + unit) \<times> 'w"
  os_truncate :: "path \<Rightarrow> int \<Rightarrow> 'w \<Rightarrow> (errno + unit) \<times> 'w"
  os_mkdir :: "path \<Rightarrow> u32 \<Rightarrow> 'w \<Rightarrow> (errno + unit) \<times> 'w"
  os_unlink :: "path \<Rightarrow> 'w \<Rightarrow> (errno + unit) \<times> 'w"
  os_rmdir :: "path \<Rightarrow> 'w \<Rightarrow> (errno + unit) \<times> 'w"

text \<open>
  The documented behaviour of \<^verbatim>\<open>setxattr\<close>/\<^verbatim>\<open>getxattr\<close> on one path: a successful set is read back,
  a set changes no other attribute of the path, and a failed set changes none.
\<close>

definition xattr_backend :: "'w os \<Rightarrow> path \<Rightarrow> bool" where
  "xattr_backend os p \<longleftrightarrow>
     (\<forall>k v w r w'. os_xattr_set os p k v w = (r, w') \<longrightarrow>
        (\<forall>k'. os_xattr_get os p k' w' =
           (if k' = k \<and> r = Inr () then Inr (Some v) else os_xattr_get os p k' w)))"

lemma xattr_backendD:
  "xattr_backend os p \<Longrightarrow> os_xattr_set os p k v w = (r, w') \<Longrightarrow>
     os_xattr_get os p k' w' =
       (if k' = k \<and> r = Inr () then Inr (Some v) else os_xattr_get os p k' w)"
  by (simp add: xattr_backend_def)

section \<open>Fallible steps\<close>

text \<open>A step that may fail and may change the world, and Rust's \<^verbatim>\<open>?\<close>: go on only after a success.\<close>

type_synonym ('w, 'a) io = "'w \<Rightarrow> (io_error + 'a) \<times> 'w"

definition io_then :: "('w, unit) io \<Rightarrow> ('w, 'a) io \<Rightarrow> ('w, 'a) io" where
  "io_then m k w = (case m w of (Inl e, w') \<Rightarrow> (Inl e, w') | (Inr _, w') \<Rightarrow> k w')"

definition io_ok :: "('w, unit) io" where
  "io_ok w = (Inr (), w)"

lemma io_then_Inr:
  "io_then m k w = (Inr a, w'') \<longleftrightarrow> (\<exists>w'. m w = (Inr (), w') \<and> k w' = (Inr a, w''))"
  by (auto simp: io_then_def split: prod.splits sum.splits)

lemma io_ok_Inr [simp]: "io_ok w = (r, w') \<longleftrightarrow> r = Inr () \<and> w' = w"
  by (auto simp: io_ok_def)

text \<open>\<^verbatim>\<open>r?\<close> on a plain result.\<close>

definition bind_res :: "'e + 'a \<Rightarrow> ('a \<Rightarrow> 'e + 'b) \<Rightarrow> 'e + 'b" where
  "bind_res r f = (case r of Inl e \<Rightarrow> Inl e | Inr a \<Rightarrow> f a)"

lemma bind_res_simps [simp]:
  "bind_res (Inl e) f = Inl e" "bind_res (Inr a) f = f a"
  by (simp_all add: bind_res_def)

lemma bind_res_Inr: "bind_res r f = Inr b \<longleftrightarrow> (\<exists>a. r = Inr a \<and> f a = Inr b)"
  by (cases r) auto

end
