(* ===== verification/Mem_Os.thy ===== *)
theory Mem_Os
  imports Os_Interface "HOL-Library.AList"
begin

text \<open>
  A concrete instance of the operating-system parameter: files, directories and links in an
  association list of paths, with contents, mode bits and extended attributes, an open-file
  table and a clock. It models no code of the repository; the witnesses of the properties run
  the program on it, and \<open>mem_xattr_backend\<close> shows that the hypothesis \<open>xattr_backend\<close> can hold.
\<close>

unbundle bit_operations_syntax

record node =
  n_kind :: entry_type
  n_data :: bytes
  n_mode :: u32
  n_xattrs :: "(str \<times> bytes) list"

record mem =
  m_nodes :: "(path \<times> node) list"
  m_fds :: "(nat \<times> path) list"
  m_clock :: str
  m_secs :: u64

definition mem_node :: "mem \<Rightarrow> path \<Rightarrow> node option" where
  "mem_node m p = map_of (m_nodes m) p"

definition mem_put :: "path \<Rightarrow> node \<Rightarrow> mem \<Rightarrow> mem" where
  "mem_put p n m = m\<lparr>m_nodes := AList.update p n (m_nodes m)\<rparr>"

definition mem_del :: "path \<Rightarrow> mem \<Rightarrow> mem" where
  "mem_del p m = m\<lparr>m_nodes := AList.delete p (m_nodes m)\<rparr>"

definition kind_bits :: "entry_type \<Rightarrow> u32" where
  "kind_bits k = (case k of IsDir \<Rightarrow> 0x4000 | IsSymlink \<Rightarrow> 0xA000 | IsFile \<Rightarrow> 0x8000 | IsOther \<Rightarrow> 0x1000)"

definition mem_stat :: "node \<Rightarrow> stat" where
  "mem_stat n =
     \<lparr>st_mode = kind_bits (n_kind n) OR n_mode n, st_size = int (length (n_data n)), st_blocks = 1,
      st_nlink = 1, st_uid = 1000, st_gid = 1000, st_rdev = 0, st_blksize = 4096,
      st_atime = 0, st_atime_nsec = 0, st_mtime = 0, st_mtime_nsec = 0,
      st_ctime = 0, st_ctime_nsec = 0\<rparr>"

definition mem_on :: "path \<Rightarrow> mem \<Rightarrow> (node \<Rightarrow> node) \<Rightarrow> (errno + unit) \<times> mem" where
  "mem_on p m f =
     (case mem_node m p of None \<Rightarrow> (Inl ENOENT, m) | Some n \<Rightarrow> (Inr (), mem_put p (f n) m))"

definition mem_open :: "path \<Rightarrow> u32 \<Rightarrow> u32 \<Rightarrow> mem \<Rightarrow> (errno + nat) \<times> mem" where
  "mem_open p flags mode m =
     (let fd = length (m_fds m) + 3; m' = m\<lparr>m_fds := (fd, p) # m_fds m\<rparr>
      in case mem_node m p of
           Some n \<Rightarrow> (Inr fd, m')
         | None \<Rightarrow>
             if flags AND 0x40 = 0 then (Inl ENOENT, m)
             else (Inr fd, mem_put p \<lparr>n_kind = IsFile, n_data = [], n_mode = mode, n_xattrs = []\<rparr> m'))"

definition mem_pwrite :: "nat \<Rightarrow> bytes \<Rightarrow> int \<Rightarrow> mem \<Rightarrow> (errno + nat) \<times> mem" where
  "mem_pwrite fd data offset m =
     (case map_of (m_fds m) fd of
        None \<Rightarrow> (Inl EBADF, m)
      | Some p \<Rightarrow>
          (case mem_node m p of
             None \<Rightarrow> (Inl EIO, m)
           | Some n \<Rightarrow>
               (Inr (length data),
                mem_put p (n\<lparr>n_data := take (nat offset) (n_data n) @ data
                                         @ drop (nat offset + length data) (n_data n)\<rparr>) m)))"

definition mem_children :: "path \<Rightarrow> mem \<Rightarrow> (io_error + dir_entry) list" where
  "mem_children p m =
     map (\<lambda>(q, n). Inr \<lparr>de_name = drop (Suc (length p)) q, de_type = Inr (n_kind n)\<rparr>)
       (filter (\<lambda>(q, n). prefix (p @ ''/'') q \<and> CHR ''/'' \<notin> set (drop (Suc (length p)) q)) (m_nodes m))"

definition mem_os :: "mem os" where
  "mem_os =
     \<lparr>os_read_file = (\<lambda>p m. case mem_node m p of None \<Rightarrow> Inl (Os ENOENT) | Some n \<Rightarrow> Inr (n_data n)),
      os_now_rfc3339 = m_clock,
      os_now_secs = m_secs,
      os_xattr_get = (\<lambda>p k m. case mem_node m p of
         None \<Rightarrow> Inl (Os ENOENT) | Some n \<Rightarrow> Inr (map_of (n_xattrs n) k)),
      os_xattr_set = (\<lambda>p k v m. case mem_on p m (n_xattrs_update (AList.update k v)) of
         (Inl e, m') \<Rightarrow> (Inl (Os e), m') | (Inr u, m') \<Rightarrow> (Inr u, m')),
      os_symlink_metadata = (\<lambda>p m. case mem_node m p of None \<Rightarrow> Inl (Os ENOENT) | Some n \<Rightarrow> Inr ()),
      os_is_dir = (\<lambda>p m. case mem_node m p of None \<Rightarrow> False | Some n \<Rightarrow> n_kind n = IsDir),
      os_read_dir = (\<lambda>p m. case mem_node m p of None \<Rightarrow> Inl (Os ENOENT) | Some n \<Rightarrow> Inr (mem_children p m)),
      os_lstat = (\<lambda>p m. case mem_node m p of None \<Rightarrow> Inl ENOENT | Some n \<Rightarrow> Inr (mem_stat n)),
      os_open = mem_open,
      os_close = (\<lambda>fd m. m\<lparr>m_fds := AList.delete fd (m_fds m)\<rparr>),
      os_pread = (\<lambda>fd size offset m. case map_of (m_fds m) fd of
         None \<Rightarrow> Inl EBADF
       | Some p \<Rightarrow> (case mem_node m p of
           None \<Rightarrow> Inl EIO | Some n \<Rightarrow> Inr (take size (drop (nat offset) (n_data n))))),
      os_pwrite = mem_pwrite,
      os_chmod = (\<lambda>p mode m. mem_on p m (n_mode_update (\<lambda>_. mode))),
      os_truncate = (\<lambda>p len m. mem_on p m (n_data_update (take (nat len)))),
      os_mkdir = (\<lambda>p mode m. case mem_node m p of
         Some n \<Rightarrow> (Inl 17, m)
       | None \<Rightarrow> (Inr (), mem_put p \<lparr>n_kind = IsDir, n_data = [], n_mode = mode, n_xattrs = []\<rparr> m)),
      os_unlink = (\<lambda>p m. case mem_node m p of None \<Rightarrow> (Inl ENOENT, m) | Some n \<Rightarrow> (Inr (), mem_del p m)),
      os_rmdir = (\<lambda>p m. case mem_node m p of None \<Rightarrow> (Inl ENOENT, m) | Some n \<Rightarrow> (Inr (), mem_del p m))\<rparr>"

text \<open>Files given with their contents only, at a fixed clock.\<close>

definition plain_node :: "entry_type \<Rightarrow> bytes \<Rightarrow> node" where
  "plain_node k d = \<lparr>n_kind = k, n_data = d, n_mode = 0x1A4, n_xattrs = []\<rparr>"

definition mem_files :: "(path \<times> bytes) list \<Rightarrow> mem" where
  "mem_files fs =
     \<lparr>m_nodes = map (\<lambda>(p, d). (p, plain_node IsFile d)) fs, m_fds = [],
      m_clock = ''2026-05-24T00:00:00+00:00'', m_secs = 1779580800\<rparr>"

lemma mem_node_put [simp]: "mem_node (mem_put p n m) q = (if q = p then Some n else mem_node m q)"
  by (simp add: mem_node_def mem_put_def update_conv')

lemma mem_xattr_backend: "xattr_backend mem_os p"
  by (auto simp: xattr_backend_def mem_os_def mem_on_def update_conv' split: option.splits)

text \<open>Setting an attribute leaves the tree and the clock as they are.\<close>

lemma update_same_kinds:
  "map_of al p = Some n \<Longrightarrow> n_kind n' = n_kind n \<Longrightarrow>
     map (\<lambda>(q, n). (q, n_kind n)) (AList.update p n' al) = map (\<lambda>(q, n). (q, n_kind n)) al"
  by (induction al) (auto split: if_splits)

lemma mem_children_kinds:
  "mem_children p m =
     map (\<lambda>(q, k). Inr \<lparr>de_name = drop (Suc (length p)) q, de_type = Inr k\<rparr>)
       (filter (\<lambda>(q, _). prefix (p @ ''/'') q \<and> CHR ''/'' \<notin> set (drop (Suc (length p)) q))
         (map (\<lambda>(q, n). (q, n_kind n)) (m_nodes m)))"
  by (simp add: mem_children_def filter_map comp_def case_prod_unfold)

lemma mem_set_keeps:
  assumes "os_xattr_set mem_os p key v m = (r, m')"
  shows "os_read_dir mem_os q m' = os_read_dir mem_os q m" and "os_now_secs mem_os m' = os_now_secs mem_os m"
proof -
  have "m' = m \<or> (\<exists>n. mem_node m p = Some n \<and> m' = mem_put p (n_xattrs_update (AList.update key v) n) m)"
    using assms by (auto simp: mem_os_def mem_on_def split: option.splits)
  then have "(mem_node m' q = None) = (mem_node m q = None)" "mem_children q m' = mem_children q m"
    and secs: "m_secs m' = m_secs m"
    by (auto simp: mem_children_kinds mem_node_def mem_put_def update_same_kinds update_conv' split: if_splits)
  then show "os_read_dir mem_os q m' = os_read_dir mem_os q m"
    by (auto simp: mem_os_def split: option.split)
  show "os_now_secs mem_os m' = os_now_secs mem_os m" using secs by (simp add: mem_os_def)
qed

end
