(* ===== verification/Identity.thy ===== *)
theory Identity
  imports Mem_Os
begin

text \<open>
  \<^verbatim>\<open>src/identity.rs\<close>: who issued a FUSE request. \<^verbatim>\<open>/proc/<pid>/environ\<close> is read as a NUL-separated
  block of \<^verbatim>\<open>KEY=value\<close> chunks; four \<^verbatim>\<open>CLAUDE_*\<close> variables give session, tool, turn and intent,
  and \<^verbatim>\<open>/proc/<pid>/comm\<close> gives the fallback. \<open>render_environ\<close> is the block the kernel shows for a
  list of variables (not code of the program; it states the round trip).
\<close>

record identity =
  session :: str
  tool :: str
  turn :: "str option"
  intent :: "str option"

definition proc_path :: "u32 \<Rightarrow> str \<Rightarrow> path" where
  "proc_path pid leaf = ''/proc/'' @ dec_str (unat pid) @ ''/'' @ leaf"

definition environ_chunk :: "bytes \<Rightarrow> (str \<times> str) option" where
  "environ_chunk chunk =
     (if chunk = [] then None
      else case from_utf8 chunk of None \<Rightarrow> None | Some s \<Rightarrow> split_once ''='' s)"

definition parse_environ :: "bytes \<Rightarrow> (str \<times> str) list" where
  "parse_environ bs = List.map_filter environ_chunk (split_on CHR 0x00 bs)"

definition read_environ :: "'w os \<Rightarrow> u32 \<Rightarrow> 'w \<Rightarrow> (str \<times> str) list" where
  "read_environ os pid w =
     (case os_read_file os (proc_path pid ''environ'') w of
        Inl _ \<Rightarrow> []
      | Inr bs \<Rightarrow> parse_environ bs)"

text \<open>\<^verbatim>\<open>fs::read_to_string\<close> fails on bytes that are not UTF-8.\<close>

definition read_comm :: "'w os \<Rightarrow> u32 \<Rightarrow> 'w \<Rightarrow> str option" where
  "read_comm os pid w =
     (case os_read_file os (proc_path pid ''comm'') w of
        Inl _ \<Rightarrow> None
      | Inr bs \<Rightarrow> map_option trim (from_utf8 bs))"

record env_acc =
  a_session :: "str option"
  a_tool :: "str option"
  a_turn :: "str option"
  a_intent :: "str option"

definition env_step :: "env_acc \<Rightarrow> str \<times> str \<Rightarrow> env_acc" where
  "env_step acc kv =
     (case kv of (k, v) \<Rightarrow>
        if k = ''CLAUDE_SESSION'' then acc\<lparr>a_session := Some v\<rparr>
        else if k = ''CLAUDE_TOOL'' then acc\<lparr>a_tool := Some v\<rparr>
        else if k = ''CLAUDE_TURN'' then acc\<lparr>a_turn := Some v\<rparr>
        else if k = ''CLAUDE_INTENT'' then acc\<lparr>a_intent := Some v\<rparr>
        else acc)"

definition unwrap_or :: "'a option \<Rightarrow> 'a \<Rightarrow> 'a" where
  "unwrap_or opt d = (case opt of None \<Rightarrow> d | Some x \<Rightarrow> x)"

definition fallback_session :: "str \<Rightarrow> u32 \<Rightarrow> str" where
  "fallback_session comm pid = ''comm:'' @ comm @ '':pid:'' @ dec_str (unat pid)"

definition resolve_identity :: "'w os \<Rightarrow> u32 \<Rightarrow> 'w \<Rightarrow> identity" where
  "resolve_identity os pid w =
     (let env = read_environ os pid w;
          comm = unwrap_or (read_comm os pid w) ''unknown'';
          acc = foldl env_step
                  \<lparr>a_session = None, a_tool = None, a_turn = None, a_intent = None\<rparr> env
      in \<lparr>session = unwrap_or (a_session acc) (fallback_session comm pid),
          tool = unwrap_or (a_tool acc) comm,
          turn = a_turn acc,
          intent = a_intent acc\<rparr>)"

lemmas identity_defs [op_defs] =
  read_environ_def read_comm_def resolve_identity_def fallback_session_def unwrap_or_def

lemma unwrap_or_simps [simp]: "unwrap_or None d = d" "unwrap_or (Some x) d = x"
  by (simp_all add: unwrap_or_def)

section \<open>The loop over the environment\<close>

text \<open>The last assignment of a variable wins: the value the association list read backwards gives.\<close>

definition last_value :: "(str \<times> str) list \<Rightarrow> str \<Rightarrow> str option" where
  "last_value env k = map_of (rev env) k"

lemma foldl_env_step:
  "foldl env_step acc env =
     \<lparr>a_session = (case last_value env ''CLAUDE_SESSION'' of None \<Rightarrow> a_session acc | Some v \<Rightarrow> Some v),
      a_tool = (case last_value env ''CLAUDE_TOOL'' of None \<Rightarrow> a_tool acc | Some v \<Rightarrow> Some v),
      a_turn = (case last_value env ''CLAUDE_TURN'' of None \<Rightarrow> a_turn acc | Some v \<Rightarrow> Some v),
      a_intent = (case last_value env ''CLAUDE_INTENT'' of None \<Rightarrow> a_intent acc | Some v \<Rightarrow> Some v)\<rparr>"
proof (induction env rule: rev_induct)
  case (snoc kv env)
  obtain k v where "kv = (k, v)" by (cases kv)
  with snoc show ?case by (auto simp: env_step_def last_value_def)
qed (simp add: last_value_def)

section \<open>The environment block\<close>

definition env_ok :: "str \<times> str \<Rightarrow> bool" where
  "env_ok kv \<longleftrightarrow>
     (case kv of (k, v) \<Rightarrow>
        CHR ''='' \<notin> set k \<and> CHR 0x00 \<notin> set k \<and> CHR 0x00 \<notin> set v \<and> utf8_valid k \<and> utf8_valid v)"

definition render_environ :: "(str \<times> str) list \<Rightarrow> bytes" where
  "render_environ env = concat (map (\<lambda>(k, v). k @ ''='' @ v @ [CHR 0x00]) env)"

lemma environ_chunk_kv: "env_ok (k, v) \<Longrightarrow> environ_chunk (k @ CHR ''='' # v) = Some (k, v)"
  by (auto simp: environ_chunk_def env_ok_def split_once_char utf8_valid_split_char)

lemma parse_render_environ:
  "list_all env_ok env \<Longrightarrow> parse_environ (render_environ env) = env"
proof (induction env)
  case Nil
  then show ?case
    by (simp add: parse_environ_def render_environ_def environ_chunk_def List.map_filter_def)
next
  case (Cons kv env)
  obtain k v where kv: "kv = (k, v)" by (cases kv)
  with Cons.prems have "CHR 0x00 \<notin> set (k @ ''='' @ v)" by (auto simp: env_ok_def)
  then have "split_on CHR 0x00 (render_environ (kv # env)) =
      (k @ ''='' @ v) # split_on CHR 0x00 (render_environ env)"
    using split_on_append [of "CHR 0x00" "k @ ''='' @ v" "render_environ env"]
    by (simp add: kv render_environ_def split_on_no_sep)
  with Cons kv show ?case
    by (simp add: parse_environ_def environ_chunk_kv List.map_filter_simps)
qed

interpretation environ: text_codec render_environ parse_environ "\<lambda>env. env" "list_all env_ok"
  by unfold_locales (rule parse_render_environ)

section \<open>A process without a session\<close>

lemma last_value_None: "k \<notin> fst ` set env \<Longrightarrow> last_value env k = None"
  by (simp add: last_value_def map_of_eq_None_iff)

lemma session_from_comm:
  assumes "os_read_file os (proc_path pid ''environ'') w = Inr (render_environ env)"
    and "list_all env_ok env" and "''CLAUDE_SESSION'' \<notin> fst ` set env"
    and "os_read_file os (proc_path pid ''comm'') w = Inr (comm @ [CHR 0x0A])"
    and "utf8_valid comm" and "trimmed comm"
  shows "session (resolve_identity os pid w) = fallback_session comm pid"
proof -
  have "utf8_valid (comm @ [CHR 0x0A])" using assms(5) by (intro utf8_valid_append) simp_all
  then have "read_comm os pid w = Some comm" using assms(4,6) by (simp add: read_comm_def trim_newline)
  moreover have "read_environ os pid w = env" using assms(1,2) by (simp add: read_environ_def environ.dec_enc)
  ultimately show ?thesis
    by (simp add: resolve_identity_def foldl_env_step Let_def last_value_None [OF assms(3)])
qed

section \<open>Properties\<close>

text \<open>
  C30. For a process whose environment is any list of well-formed variables and whose comm can be
  read, the resolved identity takes each field from the last assignment of its variable
  (\<^verbatim>\<open>CLAUDE_SESSION\<close>, \<^verbatim>\<open>CLAUDE_TOOL\<close>, \<^verbatim>\<open>CLAUDE_TURN\<close>, \<^verbatim>\<open>CLAUDE_INTENT\<close>), falls back to
  \<^verbatim>\<open>comm:<comm>:pid:<pid>\<close> and to the comm for a missing session and tool, and leaves a missing turn
  or intent empty.
\<close>

theorem resolve_identity_spec:
  assumes "os_read_file os (proc_path pid ''environ'') w = Inr (render_environ env)"
    and "list_all env_ok env"
    and "os_read_file os (proc_path pid ''comm'') w = Inr (comm @ [CHR 0x0A])"
    and "utf8_valid comm" and "trimmed comm"
  shows "resolve_identity os pid w =
    \<lparr>session = unwrap_or (last_value env ''CLAUDE_SESSION'') (fallback_session comm pid),
     tool = unwrap_or (last_value env ''CLAUDE_TOOL'') comm,
     turn = last_value env ''CLAUDE_TURN'',
     intent = last_value env ''CLAUDE_INTENT''\<rparr>"
proof -
  have "utf8_valid (comm @ [CHR 0x0A])"
    using assms(4) by (intro utf8_valid_append) simp_all
  then have "read_comm os pid w = Some comm"
    using assms(3,5) by (simp add: read_comm_def trim_newline)
  moreover have "read_environ os pid w = env"
    using assms(1,2) by (simp add: read_environ_def environ.dec_enc)
  ultimately show ?thesis
    by (simp add: resolve_identity_def foldl_env_step Let_def split: option.splits)
qed


theorem resolve_identity_spec_witness:
  "resolve_identity mem_os 7
     (mem_files [(''/proc/7/environ'',
                    render_environ [(''CLAUDE_SESSION'', ''s1''), (''HOME'', ''/r''), (''CLAUDE_SESSION'', ''s2'')]),
                 (''/proc/7/comm'', ''bash'' @ [CHR 0x0A])]) =
   \<lparr>session = ''s2'', tool = ''bash'', turn = None, intent = None\<rparr>"
  (is "resolve_identity mem_os 7 ?m = _")
proof -
  let ?env = "[(''CLAUDE_SESSION'', ''s1''), (''HOME'', ''/r''), (''CLAUDE_SESSION'', ''s2'')]"
  have p: "proc_path 7 ''environ'' = ''/proc/7/environ''" "proc_path 7 ''comm'' = ''/proc/7/comm''"
    by code_simp+
  have 1: "os_read_file mem_os (proc_path 7 ''environ'') ?m = Inr (render_environ ?env)"
    and 3: "os_read_file mem_os (proc_path 7 ''comm'') ?m = Inr (''bash'' @ [CHR 0x0A])"
    by (simp_all add: p mem_os_def mem_node_def mem_files_def plain_node_def)
  have 2: "list_all env_ok ?env" and 4: "utf8_valid ''bash''" and 5: "trimmed ''bash''"
    by code_simp+
  from resolve_identity_spec [OF 1 2 3 4 5] show ?thesis by (simp add: last_value_def)
qed

text \<open>
  When neither \<^verbatim>\<open>/proc/<pid>/environ\<close> nor \<^verbatim>\<open>/proc/<pid>/comm\<close> can be read (the process is gone, or
  the request carries a pid that names no process), the identity is still defined: session
  \<^verbatim>\<open>comm:unknown:pid:<pid>\<close>, tool \<^verbatim>\<open>unknown\<close>, no turn, no intent.
\<close>

theorem resolve_identity_unknown:
  assumes "os_read_file os (proc_path pid ''environ'') w = Inl e"
    and "os_read_file os (proc_path pid ''comm'') w = Inl e'"
  shows "resolve_identity os pid w =
    \<lparr>session = ''comm:unknown:pid:'' @ dec_str (unat pid), tool = ''unknown'', turn = None, intent = None\<rparr>"
  using assms by (simp add: resolve_identity_def read_environ_def read_comm_def fallback_session_def)

theorem resolve_identity_unknown_witness:
  "session (resolve_identity mem_os 0 (mem_files [])) = ''comm:unknown:pid:0''"
proof -
  have "os_read_file mem_os p (mem_files []) = Inl (Os ENOENT)" for p
    by (simp add: mem_os_def mem_node_def mem_files_def)
  moreover have "dec_str (unat (0 :: u32)) = ''0''" by code_simp
  ultimately show ?thesis
    using resolve_identity_unknown [of mem_os 0 "mem_files []"] by simp
qed

end
