(* ===== verification/Session.thy ===== *)
theory Session
  imports Identity
begin

text \<open>
  \<^verbatim>\<open>src/session.rs\<close>: the classification of a stored session value. Three printers produce these
  values: AgentNS (a bare id), the kernel module (the enriched fallback, whose documented format
  is \<open>render_fallback\<close>) and the overlay (\<open>fallback_session\<close>, from \<^verbatim>\<open>src/identity.rs\<close>). Both fallbacks
  are instances of the interface \<open>text_codec\<close>.
\<close>

record fallback_fields =
  comm_chain :: "str option"
  env_tag :: "str option"
  cwd :: "str option"
  pid_tag :: "str option"
  uid_tag :: "str option"

definition no_fields :: fallback_fields where
  "no_fields = \<lparr>comm_chain = None, env_tag = None, cwd = None, pid_tag = None, uid_tag = None\<rparr>"

datatype session_kind =
    AgentNs str
  | EnrichedFallback fallback_fields
  | LegacyFallback str str
  | Opaque str

definition is_hexdigit :: "char \<Rightarrow> bool" where
  "is_hexdigit c \<longleftrightarrow>
     (let n = (of_char c :: nat)
      in (48 \<le> n \<and> n \<le> 57) \<or> (97 \<le> n \<and> n \<le> 102) \<or> (65 \<le> n \<and> n \<le> 70))"

definition is_agentns_id :: "str \<Rightarrow> bool" where
  "is_agentns_id s \<longleftrightarrow> length s = 32 \<and> list_all is_hexdigit s"

definition fallback_segment :: "fallback_fields \<Rightarrow> str \<Rightarrow> fallback_fields" where
  "fallback_segment f segment =
     (case split_once '':'' segment of
        None \<Rightarrow> f
      | Some (key, v) \<Rightarrow>
          if key = ''comm-chain'' then f\<lparr>comm_chain := Some v\<rparr>
          else if key = ''env'' then f\<lparr>env_tag := Some v\<rparr>
          else if key = ''cwd'' then f\<lparr>cwd := Some v\<rparr>
          else if key = ''pid'' then f\<lparr>pid_tag := Some v\<rparr>
          else if key = ''uid'' then f\<lparr>uid_tag := Some v\<rparr>
          else f)"

definition parse_enriched_fallback :: "str \<Rightarrow> fallback_fields" where
  "parse_enriched_fallback s = foldl fallback_segment no_fields (split_on CHR '';'' s)"

definition parse_legacy_fallback :: "str \<Rightarrow> (str \<times> str) option" where
  "parse_legacy_fallback s =
     (case strip_prefix_str ''comm:'' s of
        None \<Rightarrow> None
      | Some rest \<Rightarrow>
          (case split_once '':pid:'' rest of
             None \<Rightarrow> None
           | Some (name, tail) \<Rightarrow> if name = [] \<or> tail = [] then None else Some (name, tail)))"

definition classify :: "str \<Rightarrow> session_kind" where
  "classify s =
     (if is_agentns_id s then AgentNs s
      else if prefix ''comm-chain:'' s then EnrichedFallback (parse_enriched_fallback s)
      else case parse_legacy_fallback s of
             Some (comm, pid) \<Rightarrow> LegacyFallback comm pid
           | None \<Rightarrow> Opaque s)"

section \<open>Ids\<close>

lemma is_hexdigit_lits [simp]:
  "\<not> is_hexdigit CHR ''o''" "\<not> is_hexdigit CHR ''m''" "\<not> is_hexdigit CHR '':''"
  by (simp_all add: is_hexdigit_def)

lemma not_id_if_comm: "prefix ''comm'' s \<Longrightarrow> \<not> is_agentns_id s"
  by (auto simp: is_agentns_id_def prefix_def)

section \<open>The overlay's fallback\<close>

text \<open>
  A comm that survives the trip: not empty, and no \<^verbatim>\<open>:pid:\<close> begins in it.
\<close>

definition comm_ok :: "str \<Rightarrow> bool" where
  "comm_ok comm \<longleftrightarrow> comm \<noteq> [] \<and> \<not> sublist '':pid:'' (comm @ '':pid'')"

lemma classify_fallback_session:
  assumes "comm_ok comm"
  shows "classify (fallback_session comm pid) = LegacyFallback comm (dec_str (unat pid))"
proof -
  let ?s = "fallback_session comm pid"
  have "split_once '':pid:'' (comm @ '':pid:'' @ dec_str (unat pid)) = Some (comm, dec_str (unat pid))"
    using assms split_once_str [of "'':pid:''" comm] by (simp add: comm_ok_def)
  moreover have "strip_prefix_str ''comm:'' ?s = Some (comm @ '':pid:'' @ dec_str (unat pid))"
    by (simp add: strip_prefix_str_def fallback_session_def)
  moreover have "\<not> is_agentns_id ?s" by (rule not_id_if_comm) (simp add: fallback_session_def)
  moreover have "\<not> prefix ''comm-chain:'' ?s" by (simp add: fallback_session_def)
  ultimately show ?thesis
    using assms by (simp add: classify_def parse_legacy_fallback_def comm_ok_def)
qed

lemma utf8_valid_fallback:
  assumes "utf8_valid comm"
  shows "utf8_valid (fallback_session comm pid)"
proof -
  have "utf8_valid ''comm:''" "utf8_valid '':pid:''" by code_simp+
  with assms show ?thesis
    unfolding fallback_session_def by (intro utf8_valid_append utf8_valid_dec_str)
qed

interpretation legacy: text_codec "\<lambda>(comm, pid). fallback_session comm pid" classify
    "\<lambda>(comm, pid). LegacyFallback comm (dec_str (unat pid))" "\<lambda>(comm, pid). comm_ok comm"
  by unfold_locales (auto simp: classify_fallback_session)

section \<open>The kernel's fallback\<close>

definition render_field :: "str \<Rightarrow> str option \<Rightarrow> str list" where
  "render_field key ov = (case ov of None \<Rightarrow> [] | Some v \<Rightarrow> [key @ '':'' @ v])"

definition fallback_segs :: "fallback_fields \<Rightarrow> str list" where
  "fallback_segs f =
     render_field ''comm-chain'' (comm_chain f) @ render_field ''env'' (env_tag f) @
     render_field ''cwd'' (cwd f) @ render_field ''pid'' (pid_tag f) @ render_field ''uid'' (uid_tag f)"

definition render_fallback :: "fallback_fields \<Rightarrow> str" where
  "render_fallback f = join_with '';'' (fallback_segs f)"

definition field_ok :: "str option \<Rightarrow> bool" where
  "field_ok ov \<longleftrightarrow> (case ov of None \<Rightarrow> True | Some v \<Rightarrow> CHR '';'' \<notin> set v)"

definition fallback_ok :: "fallback_fields \<Rightarrow> bool" where
  "fallback_ok f \<longleftrightarrow>
     comm_chain f \<noteq> None \<and>
     list_all field_ok [comm_chain f, env_tag f, cwd f, pid_tag f, uid_tag f]"

lemma fallback_segs_no_sep: "fallback_ok f \<Longrightarrow> x \<in> set (fallback_segs f) \<Longrightarrow> CHR '';'' \<notin> set x"
  by (auto simp: fallback_ok_def fallback_segs_def render_field_def field_ok_def split: option.splits)

lemma fallback_segment_render:
  "CHR '':'' \<notin> set key \<Longrightarrow>
     fallback_segment f (key @ CHR '':'' # v) =
       (if key = ''comm-chain'' then f\<lparr>comm_chain := Some v\<rparr>
        else if key = ''env'' then f\<lparr>env_tag := Some v\<rparr>
        else if key = ''cwd'' then f\<lparr>cwd := Some v\<rparr>
        else if key = ''pid'' then f\<lparr>pid_tag := Some v\<rparr>
        else if key = ''uid'' then f\<lparr>uid_tag := Some v\<rparr> else f)"
  by (simp add: fallback_segment_def split_once_char)

lemma fold_render_field:
  "foldl fallback_segment f (render_field ''comm-chain'' ov) = (case ov of None \<Rightarrow> f | Some v \<Rightarrow> f\<lparr>comm_chain := Some v\<rparr>)"
  "foldl fallback_segment f (render_field ''env'' ov) = (case ov of None \<Rightarrow> f | Some v \<Rightarrow> f\<lparr>env_tag := Some v\<rparr>)"
  "foldl fallback_segment f (render_field ''cwd'' ov) = (case ov of None \<Rightarrow> f | Some v \<Rightarrow> f\<lparr>cwd := Some v\<rparr>)"
  "foldl fallback_segment f (render_field ''pid'' ov) = (case ov of None \<Rightarrow> f | Some v \<Rightarrow> f\<lparr>pid_tag := Some v\<rparr>)"
  "foldl fallback_segment f (render_field ''uid'' ov) = (case ov of None \<Rightarrow> f | Some v \<Rightarrow> f\<lparr>uid_tag := Some v\<rparr>)"
  using fallback_segment_render [of "''comm-chain''" f] fallback_segment_render [of "''env''" f]
    fallback_segment_render [of "''cwd''" f] fallback_segment_render [of "''pid''" f]
    fallback_segment_render [of "''uid''" f]
  by (simp_all add: render_field_def split: option.splits)

lemma fold_fallback_segs: "foldl fallback_segment no_fields (fallback_segs f) = f"
  by (cases f) (simp add: fallback_segs_def fold_render_field no_fields_def split: option.splits)

lemma classify_render_fallback:
  assumes "fallback_ok f"
  shows "classify (render_fallback f) = EnrichedFallback f"
proof -
  obtain v rest where segs: "fallback_segs f = (''comm-chain:'' @ v) # rest"
    using assms by (auto simp: fallback_ok_def fallback_segs_def render_field_def)
  then have pre: "prefix ''comm-chain:'' (render_fallback f)"
    by (cases rest) (simp_all add: render_fallback_def)
  then have "\<not> is_agentns_id (render_fallback f)"
    by (intro not_id_if_comm) (auto simp: prefix_def)
  moreover have "split_on CHR '';'' (render_fallback f) = fallback_segs f"
    unfolding render_fallback_def using segs fallback_segs_no_sep [OF assms] by (intro split_join) auto
  ultimately show ?thesis
    using pre by (simp add: classify_def parse_enriched_fallback_def fold_fallback_segs)
qed

interpretation enriched: text_codec render_fallback classify EnrichedFallback fallback_ok
  by unfold_locales (rule classify_render_fallback)

section \<open>Truncated values\<close>

text \<open>Cutting a string cuts its pieces: all but the last one left are whole.\<close>

lemma split_on_cut:
  "\<exists>ys y z zs. split_on c (take n s) = ys @ [y] \<and> split_on c s = ys @ z # zs \<and> prefix y z"
proof (induction s arbitrary: n)
  case (Cons a s)
  show ?case
  proof (cases n)
    case 0
    obtain z zs where "split_on c (a # s) = z # zs" by (metis neq_Nil_conv split_on_nonempty)
    with 0 show ?thesis
      by (intro exI [of _ "[]"] exI [of _ z] exI [of _ zs]) (simp del: split_on.simps(2))
  next
    case (Suc m)
    obtain ys y z zs where IH: "split_on c (take m s) = ys @ [y]" "split_on c s = ys @ z # zs" "prefix y z"
      using Cons.IH by blast
    show ?thesis
    proof (cases "a = c \<or> ys \<noteq> []")
      case True
      let ?ys = "if a = c then [] # ys else (a # hd ys) # tl ys"
      have "split_on c (take n (a # s)) = ?ys @ [y]" "split_on c (a # s) = ?ys @ z # zs"
        using True IH Suc by (auto simp: neq_Nil_conv)
      with IH(3) show ?thesis by blast
    next
      case False
      then have "split_on c (take n (a # s)) = [] @ [a # y]" "split_on c (a # s) = [] @ (a # z) # zs"
          "prefix (a # y) (a # z)"
        using IH Suc by auto
      then show ?thesis by blast
    qed
  qed
qed auto

lemma split_on_take:
  assumes "y \<in> set (split_on c (take n s))"
  shows "\<exists>x \<in> set (split_on c s). prefix y x"
  using split_on_cut [of c n s] assms by fastforce

definition opt_prefix :: "str option \<Rightarrow> str option \<Rightarrow> bool" where
  "opt_prefix a b \<longleftrightarrow> (case a of None \<Rightarrow> True | Some u \<Rightarrow> (case b of None \<Rightarrow> False | Some v \<Rightarrow> prefix u v))"

text \<open>Every field of \<open>g\<close> is absent or the beginning of the same field of \<open>f\<close>.\<close>

definition fields_within :: "fallback_fields \<Rightarrow> fallback_fields \<Rightarrow> bool" where
  "fields_within g f \<longleftrightarrow>
     opt_prefix (comm_chain g) (comm_chain f) \<and> opt_prefix (env_tag g) (env_tag f) \<and>
     opt_prefix (cwd g) (cwd f) \<and> opt_prefix (pid_tag g) (pid_tag f) \<and> opt_prefix (uid_tag g) (uid_tag f)"

lemma segment_cut:
  assumes "prefix y (key @ CHR '':'' # v)" and "CHR '':'' \<notin> set key"
  shows "fallback_segment g y = g \<or> (\<exists>u. prefix u v \<and> y = key @ CHR '':'' # u)"
proof (cases "prefix y key")
  case True
  then have "CHR '':'' \<notin> set y" using assms(2) set_mono_prefix by blast
  then show ?thesis by (simp add: fallback_segment_def split_once_char_None)
next
  case False
  with assms(1) obtain u where "y = key @ u" "prefix u (CHR '':'' # v)" by (auto simp: prefix_append)
  with False show ?thesis by (cases u) auto
qed

lemma render_field_cut:
  assumes "x \<in> set (render_field key ov)" and "prefix y x" and "CHR '':'' \<notin> set key"
  shows "fallback_segment g y = g \<or> (\<exists>u. opt_prefix (Some u) ov \<and> y = key @ CHR '':'' # u)"
  using assms segment_cut [of y key "the ov" g] by (auto simp: render_field_def opt_prefix_def split: option.splits)

lemmas field_segments =
  fallback_segment_render [of "''comm-chain''", simplified] fallback_segment_render [of "''env''", simplified]
  fallback_segment_render [of "''cwd''", simplified] fallback_segment_render [of "''pid''", simplified]
  fallback_segment_render [of "''uid''", simplified]

lemma fields_within_segment:
  assumes "fields_within g f" and "x \<in> set (fallback_segs f)" and "prefix y x"
  shows "fields_within (fallback_segment g y) f"
proof -
  obtain key ov where x: "x \<in> set (render_field key ov)" and
    key: "(key, ov) \<in> set [(''comm-chain'', comm_chain f), (''env'', env_tag f), (''cwd'', cwd f),
      (''pid'', pid_tag f), (''uid'', uid_tag f)]"
    using assms(2) by (auto simp: fallback_segs_def)
  then have "CHR '':'' \<notin> set key" by auto
  from render_field_cut [OF x assms(3) this, of g] assms(1) key show ?thesis
    by (auto simp: field_segments fields_within_def)
qed

lemma fields_within_fold:
  "fields_within g f \<Longrightarrow> \<forall>y \<in> set ys. \<exists>x \<in> set (fallback_segs f). prefix y x \<Longrightarrow>
     fields_within (foldl fallback_segment g ys) f"
  by (induction ys arbitrary: g) (auto intro: fields_within_segment)

section \<open>Properties\<close>

text \<open>
  The overlay's fallback session is read back by the classifier as the process name and pid
  it was made from, for every pid and every comm in which no \<^verbatim>\<open>:pid:\<close> begins.
\<close>

theorem fallback_session_roundtrip:
  assumes "comm_ok comm"
  shows "classify (fallback_session comm pid) = LegacyFallback comm (dec_str (unat pid))"
  using legacy.dec_enc [of "(comm, pid)"] assms by simp

theorem fallback_session_roundtrip_witness:
  "classify (fallback_session ''cargo'' 4242) = LegacyFallback ''cargo'' (dec_str 4242)"
proof -
  have "comm_ok ''cargo''" by code_simp
  from fallback_session_roundtrip [OF this, of 4242] show ?thesis by simp
qed

text \<open>
  The kernel's enriched fallback is read back field by field: any subset of the optional
  fields may be missing, and every field present comes back unchanged, as long as none contains
  the separator \<^verbatim>\<open>;\<close>.
\<close>

theorem enriched_fallback_roundtrip:
  assumes "fallback_ok f"
  shows "classify (render_fallback f) = EnrichedFallback f"
  using assms by (rule enriched.dec_enc)

theorem enriched_fallback_roundtrip_witness:
  "classify ''comm-chain:sh>make;cwd:/w;pid:7;uid:0'' =
     EnrichedFallback \<lparr>comm_chain = Some ''sh>make'', env_tag = None, cwd = Some ''/w'',
       pid_tag = Some ''7'', uid_tag = Some ''0''\<rparr>"
proof -
  let ?f = "\<lparr>comm_chain = Some ''sh>make'', env_tag = None, cwd = Some ''/w'', pid_tag = Some ''7'', uid_tag = Some ''0''\<rparr>"
  have "fallback_ok ?f" by (simp add: fallback_ok_def field_ok_def)
  moreover have "render_fallback ?f = ''comm-chain:sh>make;cwd:/w;pid:7;uid:0''"
    by (simp add: render_fallback_def fallback_segs_def render_field_def)
  ultimately show ?thesis using enriched_fallback_roundtrip [of ?f] by simp
qed

text \<open>
  An enriched fallback that was cut off anywhere after its first key is still recognised, and
  what is read from it is never wrong, only short: each field is missing or is the beginning of
  the field that was written.
\<close>

theorem truncated_fallback_is_partial:
  assumes "fallback_ok f" and "length ''comm-chain:'' \<le> n"
  shows "\<exists>g. classify (take n (render_fallback f)) = EnrichedFallback g \<and> fields_within g f"
proof -
  let ?s = "take n (render_fallback f)"
  obtain v rest where segs: "fallback_segs f = (''comm-chain:'' @ v) # rest"
    using assms by (auto simp: fallback_ok_def fallback_segs_def render_field_def)
  then obtain r where r: "render_fallback f = ''comm-chain:'' @ r"
    by (cases rest) (simp_all add: render_fallback_def)
  then have pre: "prefix ''comm-chain:'' ?s"
    using assms(2) by (simp add: r take_Cons')
  then have "\<not> is_agentns_id ?s" by (intro not_id_if_comm) (auto simp: prefix_def)
  moreover have "split_on CHR '';'' (render_fallback f) = fallback_segs f"
    unfolding render_fallback_def using segs fallback_segs_no_sep [OF assms(1)] by (intro split_join) auto
  then have "fields_within (parse_enriched_fallback ?s) f"
    unfolding parse_enriched_fallback_def
    using split_on_take [of _ "CHR '';''" n "render_fallback f"]
    by (intro fields_within_fold) (auto simp: fields_within_def no_fields_def opt_prefix_def)
  ultimately show ?thesis
    using pre by (simp add: classify_def)
qed

theorem truncated_fallback_is_partial_witness:
  "\<exists>g. classify (take 14 (render_fallback (no_fields\<lparr>comm_chain := Some ''make''\<rparr>))) = EnrichedFallback g \<and>
     fields_within g (no_fields\<lparr>comm_chain := Some ''make''\<rparr>)"
  by (rule truncated_fallback_is_partial) (simp_all add: fallback_ok_def field_ok_def no_fields_def)

end
