(* ===== verification/Duration.thy ===== *)
theory Duration
  imports Prov_Prelude
begin

text \<open>
  \<^verbatim>\<open>src/duration.rs\<close>: the argument of \<^verbatim>\<open>prov find --since\<close>. A \<^verbatim>\<open>Duration\<close> made by \<^verbatim>\<open>from_secs\<close> is its number
  of seconds, a 64-bit word. The error strings are one constructor per format string, with the
  values formatted into it.
\<close>

datatype duration_error =
    EmptyDuration
  | MissingUnit str
  | MissingMagnitude str
  | InvalidMagnitude str
  | UnknownUnit str str

definition parse_duration :: "str \<Rightarrow> duration_error + u64" where
  "parse_duration raw =
     (let s = trim raw
      in if s = [] then Inl EmptyDuration
         else if list_all is_digit s then Inl (MissingUnit s)
         else (let magnitude = takeWhile is_digit s; unit = dropWhile is_digit s
               in if magnitude = [] then Inl (MissingMagnitude s)
                  else case parse_u64 magnitude of
                         None \<Rightarrow> Inl (InvalidMagnitude s)
                       | Some n \<Rightarrow>
                           if unit = ''s'' then Inr n
                           else if unit = ''m'' then Inr (saturating_mul n 60)
                           else if unit = ''h'' then Inr (saturating_mul n 3600)
                           else if unit = ''d'' then Inr (saturating_mul n 86400)
                           else Inl (UnknownUnit s unit)))"

section \<open>Properties\<close>

definition unit_secs :: "char \<Rightarrow> nat option" where
  "unit_secs u =
     (if u = CHR ''s'' then Some 1 else if u = CHR ''m'' then Some 60
      else if u = CHR ''h'' then Some 3600 else if u = CHR ''d'' then Some 86400 else None)"

lemma unit_not_digit: "unit_secs u = Some k \<Longrightarrow> \<not> is_digit u"
  by (auto simp: unit_secs_def is_digit_def split: if_splits)

lemma parse_u64_digits:
  "m \<noteq> [] \<Longrightarrow> list_all is_digit m \<Longrightarrow>
     parse_u64 m = (if dec_val m \<le> u64_max then Some (of_nat (dec_val m)) else None)"
  by (cases m) (auto simp: parse_u64_def parse_digits_def strip_prefix_str_def)

lemma saturating_of_nat:
  assumes "n \<le> u64_max" and "k \<le> u64_max"
  shows "saturating_mul (of_nat n) (of_nat k) = of_nat (min (n * k) u64_max)"
proof (rule word_unat_eq_iff [THEN iffD2])
  have "unat (of_nat j :: u64) = j" if "j \<le> u64_max" for j
    using that by (simp add: unat_of_nat u64_max_def)
  then show "unat (saturating_mul (of_nat n) (of_nat k)) = unat (of_nat (min (n * k) u64_max) :: u64)"
    using assms by (simp add: unat_saturating_mul)
qed

lemma parse_duration_split:
  assumes "list_all is_digit m" and "trim raw = m @ [u]" and "\<not> is_digit u"
  shows "parse_duration raw =
    (if m = [] then Inl (MissingMagnitude [u])
     else if u64_max < dec_val m then Inl (InvalidMagnitude (m @ [u]))
     else case unit_secs u of
            None \<Rightarrow> Inl (UnknownUnit (m @ [u]) [u])
          | Some k \<Rightarrow> Inr (of_nat (min (dec_val m * k) u64_max)))"
proof -
  have tw: "takeWhile is_digit (m @ [u]) = m" "dropWhile is_digit (m @ [u]) = [u]"
    using assms(1,3) by (auto simp: list_all_iff)
  have mul: "saturating_mul (of_nat (dec_val m)) 60 = of_nat (min (dec_val m * 60) u64_max)"
    "saturating_mul (of_nat (dec_val m)) 3600 = of_nat (min (dec_val m * 3600) u64_max)"
    "saturating_mul (of_nat (dec_val m)) 86400 = of_nat (min (dec_val m * 86400) u64_max)"
    if "dec_val m \<le> u64_max"
    using that saturating_of_nat [of "dec_val m" 60] saturating_of_nat [of "dec_val m" 3600]
      saturating_of_nat [of "dec_val m" 86400] by (simp_all add: u64_max_def)
  show ?thesis
    using assms parse_u64_digits [of m]
    by (auto simp: parse_duration_def Let_def tw unit_secs_def mul min_absorb1)
qed

text \<open>
  C31. Exactly which durations are accepted, and their value: \<^verbatim>\<open>parse_duration\<close> succeeds if and only
  if the trimmed argument is one or more digits, in the range of a 64-bit word, followed by
  exactly one of the letters s, m, h, d; the result is the number of seconds, capped at the
  largest 64-bit value instead of wrapping around.
\<close>

theorem parse_duration_accepts:
  "parse_duration raw = Inr secs \<longleftrightarrow>
     (\<exists>m u k. trim raw = m @ [u] \<and> m \<noteq> [] \<and> list_all is_digit m \<and> dec_val m \<le> u64_max \<and>
        unit_secs u = Some k \<and> secs = of_nat (min (dec_val m * k) u64_max))"
proof
  assume ok: "parse_duration raw = Inr secs"
  define m where "m = takeWhile is_digit (trim raw)"
  define rest where "rest = dropWhile is_digit (trim raw)"
  have tr: "trim raw = m @ rest" by (simp add: m_def rest_def)
  have m: "list_all is_digit m" by (auto simp: m_def list_all_iff dest: set_takeWhileD)
  have "rest = ''s'' \<or> rest = ''m'' \<or> rest = ''h'' \<or> rest = ''d''"
    using ok unfolding parse_duration_def Let_def rest_def [symmetric]
    by (auto split: if_splits option.splits)
  then have "\<exists>u k. rest = [u] \<and> unit_secs u = Some k"
    by (elim disjE) (simp_all add: unit_secs_def)
  then obtain u k where u: "rest = [u]" and k: "unit_secs u = Some k" by blast
  have "trim raw = m @ [u]" "\<not> is_digit u" using tr u unit_not_digit [OF k] by simp_all
  from parse_duration_split [OF m this] ok k this(1) m
  show "\<exists>m u k. trim raw = m @ [u] \<and> m \<noteq> [] \<and> list_all is_digit m \<and> dec_val m \<le> u64_max \<and>
        unit_secs u = Some k \<and> secs = of_nat (min (dec_val m * k) u64_max)"
    by (intro exI [of _ m] exI [of _ u] exI [of _ k]) (auto split: if_splits)
qed (auto simp: parse_duration_split unit_not_digit)

text \<open>
  What the user types is what is searched: a number of days, hours, minutes or seconds
  printed in decimal is parsed as that many seconds, up to the cap.
\<close>

theorem parse_duration_of_decimal:
  assumes "n \<le> u64_max" and "unit_secs u = Some k"
  shows "parse_duration (dec_str n @ [u]) = Inr (of_nat (min (n * k) u64_max))"
proof -
  have "graphic (hd (dec_str n))" by (rule dec_str_graphic)
  moreover have "graphic u" using assms(2) by (auto simp: unit_secs_def graphic_def split: if_splits)
  ultimately have "trimmed (dec_str n @ [u])"
    by (intro trimmed_graphic) (simp_all add: hd_append)
  then show ?thesis
    using assms unit_not_digit [OF assms(2)] parse_duration_split [OF dec_str_digits, of _ n u]
    by simp
qed

theorem parse_duration_of_decimal_witness:
  "parse_duration (dec_str 300000000000000 @ ''d'') = Inr (- 1)"
proof -
  have "parse_duration (dec_str 300000000000000 @ ''d'') =
      Inr (of_nat (min (300000000000000 * 86400) u64_max))"
    by (rule parse_duration_of_decimal) (simp_all add: u64_max_def unit_secs_def)
  then show ?thesis by (simp add: u64_max_def)
qed

end
