(* ===== verification/History.thy ===== *)
theory History
  imports Utf8
begin

text \<open>
  The history ring, \<^verbatim>\<open>src/history.rs\<close> (\<^verbatim>\<open>push_history\<close>) and its reader \<^verbatim>\<open>parse_history\<close> of
  \<^verbatim>\<open>src/reader.rs\<close>. The ring is stored as a comma-separated string; the abstract ring is the list
  of its entries, most recent first. The interface \<open>mru_ring\<close> states what a ring promises for one
  push, and its client lemmas say what a ring holds after any sequence of pushes; the string
  implementation is an instance of it.
\<close>

section \<open>The code\<close>

definition MAX_HISTORY :: nat where
  "MAX_HISTORY = 5"

text \<open>The \<^verbatim>\<open>for s in prior.split(',')\<close> loop, with \<open>out\<close> the vector built so far.\<close>

fun push_loop :: "str \<Rightarrow> str list \<Rightarrow> str list \<Rightarrow> str list" where
  "push_loop session [] out = out"
| "push_loop session (seg # rest) out =
     (let s = trim seg
      in if s = [] \<or> s = session then push_loop session rest out
         else if length out = MAX_HISTORY then out
         else push_loop session rest (out @ [s]))"

definition push_history :: "str \<Rightarrow> str \<Rightarrow> str" where
  "push_history prior session =
     join_with '','' (push_loop session (split_on CHR '','' prior) [session])"

text \<open>The entries of a stored ring: the non-empty trimmed segments. The reader shows the first five.\<close>

definition entries :: "str \<Rightarrow> str list" where
  "entries raw = filter (\<lambda>s. s \<noteq> []) (map trim (split_on CHR '','' raw))"

definition parse_history :: "str \<Rightarrow> str list" where
  "parse_history raw = take MAX_HISTORY (entries raw)"

section \<open>The interface\<close>

text \<open>Each element once, at its first position.\<close>

fun dedup :: "'a list \<Rightarrow> 'a list" where
  "dedup [] = []"
| "dedup (x # xs) = x # removeAll x (dedup xs)"

lemma set_dedup [simp]: "set (dedup xs) = set xs"
  by (induction xs) auto

lemma dedup_eq_Nil [simp]: "dedup xs = [] \<longleftrightarrow> xs = []"
  by (metis set_dedup set_empty)

lemma distinct_dedup [simp]: "distinct (dedup xs)"
  by (induction xs) (auto simp: distinct_removeAll)

lemma dedup_distinct: "distinct xs \<Longrightarrow> dedup xs = xs"
  by (induction xs) auto

lemma take_removeAll_take:
  "distinct xs \<Longrightarrow> take n (removeAll x (take (Suc n) xs)) = take n (removeAll x xs)"
proof (induction xs arbitrary: n)
  case (Cons y xs)
  show ?case
  proof (cases "x = y")
    case True
    with Cons.prems have "x \<notin> set xs" "x \<notin> set (take n xs)"
      by (auto dest: in_set_takeD)
    with True show ?thesis by (simp add: removeAll_id)
  next
    case False
    with Cons show ?thesis by (cases n) auto
  qed
qed simp

locale mru_ring =
  fixes push :: "'r \<Rightarrow> 'a \<Rightarrow> 'r" and view :: "'r \<Rightarrow> 'a list" and read :: "'r \<Rightarrow> 'a list"
    and ok :: "'a \<Rightarrow> bool" and cap :: nat
  assumes cap_pos: "0 < cap"
    and view_push: "ok x \<Longrightarrow> view (push r x) = take cap (x # removeAll x (view r))"
    and read_view: "read r = take cap (view r)"
begin

definition good :: "'r \<Rightarrow> bool" where
  "good r \<longleftrightarrow> distinct (view r) \<and> length (view r) \<le> cap"

lemma good_push: "ok x \<Longrightarrow> distinct (view r) \<Longrightarrow> good (push r x)"
  by (auto simp: good_def view_push distinct_removeAll)

lemma push_hd: "ok x \<Longrightarrow> hd (read (push r x)) = x"
  using cap_pos by (cases cap) (auto simp: read_view view_push)

lemma push_length: "ok x \<Longrightarrow> length (view (push r x)) \<le> cap"
  by (simp add: view_push)

lemma view_pushes:
  assumes "good r" and "list_all ok xs"
  shows "view (foldl push r xs) = take cap (dedup (rev xs @ view r)) \<and> good (foldl push r xs)"
  using assms(2)
proof (induction xs rule: rev_induct)
  case Nil
  with assms(1) show ?case by (simp add: good_def dedup_distinct)
next
  case (snoc x xs)
  let ?l = "dedup (rev xs @ view r)"
  from snoc have IH: "view (foldl push r xs) = take cap ?l" "good (foldl push r xs)" and "ok x" by auto
  obtain n where n: "cap = Suc n" using cap_pos by (cases cap) auto
  have "take cap (x # removeAll x (take cap ?l)) = take cap (x # removeAll x ?l)"
    using take_removeAll_take [of ?l n x] by (simp add: n)
  with IH \<open>ok x\<close> show ?case
    by (simp add: view_push good_def distinct_removeAll distinct_take)
qed

lemma read_pushes:
  "good r \<Longrightarrow> list_all ok xs \<Longrightarrow> read (foldl push r xs) = take cap (dedup (rev xs @ view r))"
  using view_pushes by (simp add: read_view)

end

section \<open>The string implementation\<close>

text \<open>A session id that survives the comma-separated encoding.\<close>

definition history_ok :: "str \<Rightarrow> bool" where
  "history_ok s \<longleftrightarrow> s \<noteq> [] \<and> CHR '','' \<notin> set s \<and> trimmed s"

lemma push_loop_spec:
  assumes "length out \<le> MAX_HISTORY"
  shows "push_loop session segs out =
    out @ take (MAX_HISTORY - length out)
      (removeAll session (filter (\<lambda>s. s \<noteq> []) (map trim segs)))"
  using assms by (induction session segs out rule: push_loop.induct) (auto simp: Let_def take_Cons')

lemma push_history_eq:
  "push_history prior session =
     join_with '','' (take MAX_HISTORY (session # removeAll session (entries prior)))"
  by (simp add: push_history_def push_loop_spec entries_def MAX_HISTORY_def numeral_eq_Suc)

lemma entries_ok: "s \<in> set (entries raw) \<Longrightarrow> history_ok s"
  unfolding entries_def history_ok_def
  using split_on_pieces set_trim by fastforce

lemma entries_join:
  assumes "list_all history_ok xs"
  shows "entries (join_with '','' xs) = xs"
proof (cases "xs = []")
  case False
  with assms have "split_on CHR '','' (join_with '','' xs) = xs"
    by (intro split_join) (auto simp: list_all_iff history_ok_def)
  moreover have "map trim xs = xs"
    using assms by (intro map_idI) (auto simp: list_all_iff history_ok_def)
  ultimately show ?thesis
    using assms by (auto simp: entries_def list_all_iff history_ok_def filter_id_conv)
qed (simp add: entries_def)

lemma entries_push:
  "history_ok s \<Longrightarrow> entries (push_history prior s) = take MAX_HISTORY (s # removeAll s (entries prior))"
  unfolding push_history_eq
  by (intro entries_join) (auto simp: list_all_iff entries_ok dest!: in_set_takeD)

interpretation ring: mru_ring push_history entries parse_history history_ok MAX_HISTORY
  by unfold_locales (simp_all add: MAX_HISTORY_def parse_history_def entries_push)

lemma utf8_valid_push:
  assumes "utf8_valid prior" and "utf8_valid session"
  shows "utf8_valid (push_history prior session)"
proof -
  have "utf8_valid s" if "s \<in> set (entries prior)" for s
    using that assms(1)
    by (auto simp: entries_def intro!: utf8_valid_trim intro: utf8_valid_split [of "CHR '',''"])
  with assms(2) show ?thesis
    by (auto simp: push_history_eq utf8_valid_join list_all_iff dest!: in_set_takeD)
qed


section \<open>Properties\<close>

text \<open>
  C11. The history a file carries after any sequence of stamps, read back with \<^verbatim>\<open>parse_history\<close>,
  is the list of the distinct sessions that stamped it, most recent stamp first, cut to the five
  most recent, for session ids that are non-empty, trimmed and free of commas. The refinement of
  the most-recently-used ring by its comma-separated encoding, over whole histories.
\<close>

theorem history_is_mru:
  assumes "list_all history_ok sessions"
  shows "parse_history (foldl push_history [] sessions) = take MAX_HISTORY (dedup (rev sessions))"
proof -
  have "ring.good []" unfolding ring.good_def by (simp add: entries_def)
  from ring.read_pushes [OF this assms] show ?thesis by (simp add: entries_def)
qed

theorem history_is_mru_witness:
  "parse_history (foldl push_history [] [''a'', ''b'', ''a'', ''c'']) = [''c'', ''a'', ''b'']"
proof -
  have "list_all history_ok [''a'', ''b'', ''a'', ''c'']"
    by code_simp
  from history_is_mru [OF this] show ?thesis by (simp add: MAX_HISTORY_def)
qed

text \<open>
  One push repairs any prior value, however malformed (blank or padded segments, duplicates,
  more than five entries): the result's entries are the new session followed by the prior
  entries other than it, in order, and at most five in all.
\<close>

theorem push_history_any_prior:
  assumes "history_ok session"
  shows "entries (push_history prior session) =
           take MAX_HISTORY (session # removeAll session (entries prior)) \<and>
         hd (parse_history (push_history prior session)) = session \<and>
         length (entries (push_history prior session)) \<le> MAX_HISTORY"
  using ring.view_push ring.push_hd ring.push_length assms by simp

theorem push_history_any_prior_witness:
  "entries (push_history '' a , , b ,a'' ''c'') = [''c'', ''a'', ''b'', ''a'']"
proof -
  have ok: "history_ok ''c''" by code_simp
  have prior: "entries '' a , , b ,a'' = [''a'', ''b'', ''a'']" by code_simp
  show ?thesis
    using push_history_any_prior [OF ok, of "'' a , , b ,a''"] by (simp add: prior MAX_HISTORY_def)
qed

text \<open>
  C40. A session id that contains a comma is not treated as one id: pushing it three times in a
  row leaves six comma-separated entries, two copies of each half in front of it, although the
  same session touched the file every time. The bound of five and the absence of duplicates
  hold only for comma-free ids (C1).
\<close>

theorem comma_session_overflows:
  assumes "history_ok a" and "history_ok b"
  defines "s \<equiv> a @ '','' @ b"
  shows "entries (foldl push_history [] [s, s, s]) = [a, b, a, b, a, b]"
proof -
  have split: "push_history (join_with '','' xs) s = join_with '','' (take MAX_HISTORY (s # xs))"
    if "list_all history_ok xs" for xs
  proof -
    have "s \<notin> set xs" using that by (auto simp: s_def list_all_iff history_ok_def)
    with that show ?thesis by (simp add: push_history_eq entries_join)
  qed
  have "foldl push_history [] [s, s, s] = join_with '','' [a, b, a, b, a, b]"
    using split [of "[]"] split [of "[a, b]"] split [of "[a, b, a, b]"] assms(1,2)
    by (simp add: s_def MAX_HISTORY_def)
  then show ?thesis using entries_join [of "[a, b, a, b, a, b]"] assms(1,2) by simp
qed

theorem comma_session_overflows_witness:
  "entries (foldl push_history [] [''x,y'', ''x,y'', ''x,y'']) = [''x'', ''y'', ''x'', ''y'', ''x'', ''y'']"
proof -
  have "history_ok ''x''" "history_ok ''y''" by code_simp+
  from comma_session_overflows [OF this] show ?thesis by simp
qed

end
