(* ===== verification/Xattrs.thy ===== *)
theory Xattrs
  imports History Identity
begin

text \<open>
  \<^verbatim>\<open>src/xattrs.rs\<close>: writing an identity as the \<^verbatim>\<open>user.prov.*\<close> attributes of a path. \<open>stamp\<close> is the
  whole function with its early returns: every \<^verbatim>\<open>write_str(..)?\<close> is one \<open>io_then\<close>. The properties
  hold for any back end that behaves as \<open>xattr_backend\<close> says.
\<close>

definition KEY_SESSION :: str where "KEY_SESSION = ''user.prov.session''"
definition KEY_TOOL :: str where "KEY_TOOL = ''user.prov.tool''"
definition KEY_TURN :: str where "KEY_TURN = ''user.prov.turn''"
definition KEY_INTENT :: str where "KEY_INTENT = ''user.prov.intent''"
definition KEY_TS :: str where "KEY_TS = ''user.prov.ts''"
definition KEY_HISTORY :: str where "KEY_HISTORY = ''user.prov.history''"

definition read_str :: "'w os \<Rightarrow> path \<Rightarrow> str \<Rightarrow> 'w \<Rightarrow> str option" where
  "read_str os p key w =
     (case os_xattr_get os p key w of Inr (Some v) \<Rightarrow> from_utf8 v | _ \<Rightarrow> None)"

definition write_str :: "'w os \<Rightarrow> path \<Rightarrow> str \<Rightarrow> str \<Rightarrow> ('w, unit) io" where
  "write_str os p key v = os_xattr_set os p key v"

definition write_opt :: "'w os \<Rightarrow> path \<Rightarrow> str \<Rightarrow> str option \<Rightarrow> ('w, unit) io" where
  "write_opt os p key ov = (case ov of None \<Rightarrow> io_ok | Some v \<Rightarrow> write_str os p key v)"

definition advance_history :: "'w os \<Rightarrow> path \<Rightarrow> str \<Rightarrow> ('w, unit) io" where
  "advance_history os p sess w =
     (let prior = unwrap_or (read_str os p KEY_HISTORY w) []
      in write_str os p KEY_HISTORY (push_history prior sess) w)"

definition stamp :: "'w os \<Rightarrow> path \<Rightarrow> identity \<Rightarrow> str \<Rightarrow> ('w, unit) io" where
  "stamp os p ident now_iso =
     io_then (write_str os p KEY_SESSION (session ident))
    (io_then (write_str os p KEY_TOOL (tool ident))
    (io_then (write_opt os p KEY_TURN (turn ident))
    (io_then (write_opt os p KEY_INTENT (intent ident))
    (io_then (write_str os p KEY_TS now_iso)
             (advance_history os p (session ident))))))"

lemmas stamp_defs [op_defs] = stamp_def advance_history_def write_opt_def write_str_def read_str_def

lemmas key_defs = KEY_SESSION_def KEY_TOOL_def KEY_TURN_def KEY_INTENT_def KEY_TS_def KEY_HISTORY_def

lemma key_neq:
  "KEY_SESSION \<noteq> KEY_TOOL" "KEY_SESSION \<noteq> KEY_TURN" "KEY_SESSION \<noteq> KEY_INTENT"
  "KEY_SESSION \<noteq> KEY_TS" "KEY_SESSION \<noteq> KEY_HISTORY" "KEY_TOOL \<noteq> KEY_TURN" "KEY_TOOL \<noteq> KEY_INTENT"
  "KEY_TOOL \<noteq> KEY_TS" "KEY_TOOL \<noteq> KEY_HISTORY" "KEY_TURN \<noteq> KEY_INTENT" "KEY_TURN \<noteq> KEY_TS"
  "KEY_TURN \<noteq> KEY_HISTORY" "KEY_INTENT \<noteq> KEY_TS" "KEY_INTENT \<noteq> KEY_HISTORY" "KEY_TS \<noteq> KEY_HISTORY"
  by (simp_all add: key_defs)

lemmas key_neqs [simp] = key_neq key_neq [symmetric]

section \<open>One attribute\<close>

definition attr :: "'w os \<Rightarrow> path \<Rightarrow> 'w \<Rightarrow> str \<Rightarrow> io_error + bytes option" where
  "attr os p w key = os_xattr_get os p key w"

lemma write_str_attr:
  assumes "xattr_backend os p" and "write_str os p key v w = (Inr (), w')"
  shows "attr os p w' = (attr os p w)(key := Inr (Some v))"
  using xattr_backendD [OF assms(1)] assms(2) by (auto simp: attr_def write_str_def)

lemma write_str_failed:
  assumes "xattr_backend os p" and "write_str os p key v w = (Inl e, w')"
  shows "attr os p w' = attr os p w"
  using xattr_backendD [OF assms(1)] assms(2) by (auto simp: attr_def write_str_def)

lemma write_opt_attr:
  assumes "xattr_backend os p" and "write_opt os p key ov w = (Inr (), w')"
  shows "attr os p w' =
    (case ov of None \<Rightarrow> attr os p w | Some v \<Rightarrow> (attr os p w)(key := Inr (Some v)))"
  using write_str_attr [OF assms(1)] assms(2) by (auto simp: write_opt_def split: option.splits)

text \<open>
  \<open>keeps\<close>: the step leaves an attribute alone; \<open>fail_keeps\<close>: it does so whenever it fails. Steps
  before the last of a sequence must do the former, the last one only the latter.
\<close>

definition keeps :: "'w os \<Rightarrow> path \<Rightarrow> str \<Rightarrow> ('w, unit) io \<Rightarrow> bool" where
  "keeps os p key m \<longleftrightarrow> (\<forall>w r w'. m w = (r, w') \<longrightarrow> attr os p w' key = attr os p w key)"

definition fail_keeps :: "'w os \<Rightarrow> path \<Rightarrow> str \<Rightarrow> ('w, unit) io \<Rightarrow> bool" where
  "fail_keeps os p key m \<longleftrightarrow> (\<forall>w e w'. m w = (Inl e, w') \<longrightarrow> attr os p w' key = attr os p w key)"

lemma keeps_write_str: "xattr_backend os p \<Longrightarrow> key \<noteq> key' \<Longrightarrow> keeps os p key (write_str os p key' v)"
  using xattr_backendD by (fastforce simp: keeps_def attr_def write_str_def)

lemma keeps_write_opt: "xattr_backend os p \<Longrightarrow> key \<noteq> key' \<Longrightarrow> keeps os p key (write_opt os p key' ov)"
  by (cases ov) (simp_all add: write_opt_def keeps_write_str keeps_def [of _ _ _ io_ok])

lemma fail_keeps_advance_history: "xattr_backend os p \<Longrightarrow> fail_keeps os p key (advance_history os p s)"
  using write_str_failed by (fastforce simp: fail_keeps_def advance_history_def Let_def)

lemma fail_keeps_then: "keeps os p key m \<Longrightarrow> fail_keeps os p key k \<Longrightarrow> fail_keeps os p key (io_then m k)"
  unfolding fail_keeps_def keeps_def io_then_def by (fastforce split: prod.splits sum.splits)

section \<open>The whole stamp\<close>

definition prior_history :: "'w os \<Rightarrow> path \<Rightarrow> 'w \<Rightarrow> str" where
  "prior_history os p w = unwrap_or (read_str os p KEY_HISTORY w) []"

lemma prior_history_cong: "attr os p w' KEY_HISTORY = attr os p w KEY_HISTORY \<Longrightarrow>
    prior_history os p w' = prior_history os p w"
  by (simp add: prior_history_def read_str_def attr_def)

definition upd_opt :: "str \<Rightarrow> str option \<Rightarrow> (str \<Rightarrow> io_error + bytes option) \<Rightarrow> str \<Rightarrow> io_error + bytes option" where
  "upd_opt key ov m = (case ov of None \<Rightarrow> m | Some v \<Rightarrow> m(key := Inr (Some v)))"

text \<open>The attributes after a successful stamp, as one update of the attributes before it.\<close>

lemma stamp_attrs:
  assumes be: "xattr_backend os p" and ok: "stamp os p ident now w = (Inr (), w')"
  shows "attr os p w' =
    (upd_opt KEY_INTENT (intent ident) (upd_opt KEY_TURN (turn ident) (attr os p w)))
      (KEY_SESSION := Inr (Some (session ident)), KEY_TOOL := Inr (Some (tool ident)),
       KEY_TS := Inr (Some now),
       KEY_HISTORY := Inr (Some (push_history (prior_history os p w) (session ident))))"
proof -
  from ok obtain w1 w2 w3 w4 w5 where
    1: "write_str os p KEY_SESSION (session ident) w = (Inr (), w1)" and
    2: "write_str os p KEY_TOOL (tool ident) w1 = (Inr (), w2)" and
    3: "write_opt os p KEY_TURN (turn ident) w2 = (Inr (), w3)" and
    4: "write_opt os p KEY_INTENT (intent ident) w3 = (Inr (), w4)" and
    5: "write_str os p KEY_TS now w4 = (Inr (), w5)" and
    6: "advance_history os p (session ident) w5 = (Inr (), w')"
    unfolding stamp_def io_then_Inr by blast
  note upd = write_str_attr [OF be 1] write_str_attr [OF be 2] write_opt_attr [OF be 3]
    write_opt_attr [OF be 4] write_str_attr [OF be 5]
  have "attr os p w5 KEY_HISTORY = attr os p w KEY_HISTORY"
    using upd by (auto split: option.splits)
  then have "prior_history os p w5 = prior_history os p w" by (rule prior_history_cong)
  with 6 have "write_str os p KEY_HISTORY (push_history (prior_history os p w) (session ident)) w5 = (Inr (), w')"
    by (simp add: advance_history_def prior_history_def)
  from write_str_attr [OF be this] upd show ?thesis
    by (auto simp: upd_opt_def fun_eq_iff split: option.splits)
qed

lemma fail_keeps_stamp: "xattr_backend os p \<Longrightarrow> fail_keeps os p KEY_HISTORY (stamp os p ident now)"
  unfolding stamp_def
  by (intro fail_keeps_then keeps_write_str keeps_write_opt fail_keeps_advance_history) simp_all

text \<open>Several stamps of one path, one after the other, each of which must succeed.\<close>

fun stamp_all :: "'w os \<Rightarrow> path \<Rightarrow> (identity \<times> str) list \<Rightarrow> ('w, unit) io" where
  "stamp_all os p [] = io_ok"
| "stamp_all os p ((ident, now) # rest) = io_then (stamp os p ident now) (stamp_all os p rest)"

lemma stamp_all_history:
  assumes "xattr_backend os p" and "stamp_all os p ids w = (Inr (), w')"
    and "utf8_valid (prior_history os p w)" and "list_all (\<lambda>(i, _). utf8_valid (session i)) ids"
  shows "prior_history os p w' =
    foldl push_history (prior_history os p w) (map (session \<circ> fst) ids)"
  using assms(2-)
proof (induction ids arbitrary: w)
  case (Cons x ids)
  obtain ident now where x: "x = (ident, now)" by (cases x)
  with Cons.prems(1) obtain w1 where
    1: "stamp os p ident now w = (Inr (), w1)" and rest: "stamp_all os p ids w1 = (Inr (), w')"
    by (auto simp: io_then_Inr)
  have "utf8_valid (push_history (prior_history os p w) (session ident))"
    using Cons.prems x by (auto intro: utf8_valid_push)
  then have "prior_history os p w1 = push_history (prior_history os p w) (session ident)"
    using stamp_attrs [OF assms(1) 1, THEN fun_cong, of KEY_HISTORY]
    by (simp add: prior_history_def read_str_def attr_def)
  with Cons.IH [OF rest] Cons.prems x show ?case by (auto simp: utf8_valid_push)
qed simp

lemma stamped_history:
  assumes "xattr_backend os p" and "stamp_all os p ids w = (Inr (), w')"
    and "os_xattr_get os p KEY_HISTORY w = Inr None"
    and "list_all (\<lambda>(i, _). utf8_valid (session i) \<and> history_ok (session i)) ids"
  shows "parse_history (prior_history os p w') =
    take MAX_HISTORY (dedup (rev (map (session \<circ> fst) ids)))"
proof -
  have none: "prior_history os p w = []"
    using assms(3) by (simp add: prior_history_def read_str_def)
  have "list_all (\<lambda>(i, _). utf8_valid (session i)) ids"
    and ok: "list_all history_ok (map (session \<circ> fst) ids)"
    using assms(4) by (auto simp: list_all_iff)
  with stamp_all_history [OF assms(1,2)] none
  have "prior_history os p w' = foldl push_history [] (map (session \<circ> fst) ids)" by simp
  moreover have "ring.good []" unfolding ring.good_def by (simp add: entries_def)
  ultimately show ?thesis
    using ring.read_pushes [OF _ ok] by (simp add: entries_def)
qed

section \<open>Properties\<close>

text \<open>
  C15. A stamp that returns \<^verbatim>\<open>Ok\<close> has written the whole identity: session, tool and timestamp are
  replaced, turn and intent are replaced when the identity has them, the history is advanced by
  the session, and every other attribute of the path is as before.
\<close>

theorem stamp_writes_identity:
  assumes "xattr_backend os p" and "stamp os p ident now w = (Inr (), w')"
  shows "os_xattr_get os p KEY_SESSION w' = Inr (Some (session ident)) \<and>
    os_xattr_get os p KEY_TOOL w' = Inr (Some (tool ident)) \<and>
    os_xattr_get os p KEY_TS w' = Inr (Some now) \<and>
    os_xattr_get os p KEY_TURN w' =
      (case turn ident of Some t \<Rightarrow> Inr (Some t) | None \<Rightarrow> os_xattr_get os p KEY_TURN w) \<and>
    os_xattr_get os p KEY_INTENT w' =
      (case intent ident of Some i \<Rightarrow> Inr (Some i) | None \<Rightarrow> os_xattr_get os p KEY_INTENT w) \<and>
    os_xattr_get os p KEY_HISTORY w' =
      Inr (Some (push_history (prior_history os p w) (session ident))) \<and>
    (\<forall>k. k \<notin> {KEY_SESSION, KEY_TOOL, KEY_TS, KEY_TURN, KEY_INTENT, KEY_HISTORY} \<longrightarrow>
       os_xattr_get os p k w' = os_xattr_get os p k w)"
  using stamp_attrs [OF assms] unfolding attr_def [abs_def] fun_eq_iff
  by (simp add: upd_opt_def split: option.splits)

definition demo_ident :: identity where
  "demo_ident = \<lparr>session = ''S1'', tool = ''Edit'', turn = Some ''3'', intent = None\<rparr>"

theorem stamp_writes_identity_witness:
  "\<exists>m'. stamp mem_os ''/src/a'' demo_ident ''t0'' (mem_files [(''/src/a'', ''hi'')]) = (Inr (), m') \<and>
     os_xattr_get mem_os ''/src/a'' KEY_TURN m' = Inr (Some ''3'') \<and>
     os_xattr_get mem_os ''/src/a'' KEY_HISTORY m' =
       Inr (Some (push_history (prior_history mem_os ''/src/a'' (mem_files [(''/src/a'', ''hi'')])) ''S1''))"
proof -
  obtain m' where m': "stamp mem_os ''/src/a'' demo_ident ''t0'' (mem_files [(''/src/a'', ''hi'')]) = (Inr (), m')"
    by (simp add: stamp_defs io_then_def io_ok_def mem_os_def mem_on_def mem_node_def mem_put_def
        mem_files_def demo_ident_def Let_def)
  from stamp_writes_identity [OF mem_xattr_backend m'] m' show ?thesis
    by (simp add: demo_ident_def)
qed

text \<open>
  C33. A stamp that fails part way leaves the history as it was: the ring is advanced last, and a
  session enters it only if the whole stamp succeeded.
\<close>

theorem failed_stamp_keeps_history:
  assumes "xattr_backend os p" and "stamp os p ident now w = (Inl e, w')"
  shows "os_xattr_get os p KEY_HISTORY w' = os_xattr_get os p KEY_HISTORY w"
  using fail_keeps_stamp [OF assms(1)] assms(2) by (auto simp: fail_keeps_def attr_def)

theorem failed_stamp_keeps_history_witness:
  "stamp mem_os ''/gone'' demo_ident ''t0'' (mem_files []) = (Inl (Os ENOENT), mem_files []) \<and>
   os_xattr_get mem_os ''/gone'' KEY_HISTORY (mem_files []) =
     os_xattr_get mem_os ''/gone'' KEY_HISTORY (mem_files [])"
proof -
  have "stamp mem_os ''/gone'' demo_ident ''t0'' (mem_files []) = (Inl (Os ENOENT), mem_files [])"
    by (simp add: stamp_defs io_then_def mem_os_def mem_on_def mem_node_def mem_files_def)
  with failed_stamp_keeps_history [OF mem_xattr_backend this] show ?thesis by simp
qed

text \<open>
  End to end over the back end: after any number of successful stamps of a path that had no
  history, the stored attribute parses to the distinct sessions that stamped it, most recent
  first, at most five.
\<close>

theorem stamped_history_is_mru:
  assumes "xattr_backend os p" and "stamp_all os p ids w = (Inr (), w')"
    and "os_xattr_get os p KEY_HISTORY w = Inr None"
    and "list_all (\<lambda>(i, _). utf8_valid (session i) \<and> history_ok (session i)) ids"
  shows "parse_history (prior_history os p w') =
    take MAX_HISTORY (dedup (rev (map (session \<circ> fst) ids)))"
  using assms by (rule stamped_history)

theorem stamped_history_is_mru_witness:
  "\<exists>m'. stamp_all mem_os ''/f'' [(demo_ident, ''t0''), (demo_ident\<lparr>session := ''S2''\<rparr>, ''t1''), (demo_ident, ''t2'')]
          (mem_files [(''/f'', [])]) = (Inr (), m') \<and>
        parse_history (prior_history mem_os ''/f'' m') = [''S1'', ''S2'']"
proof -
  let ?ids = "[(demo_ident, ''t0''), (demo_ident\<lparr>session := ''S2''\<rparr>, ''t1''), (demo_ident, ''t2'')]"
  obtain m' where m': "stamp_all mem_os ''/f'' ?ids (mem_files [(''/f'', [])]) = (Inr (), m')"
    by (simp add: stamp_defs io_then_def io_ok_def mem_os_def mem_on_def mem_node_def mem_put_def
        mem_files_def demo_ident_def Let_def)
  have 1: "os_xattr_get mem_os ''/f'' KEY_HISTORY (mem_files [(''/f'', [])]) = Inr None"
    by (simp add: mem_os_def mem_node_def mem_files_def plain_node_def)
  have 2: "list_all (\<lambda>(i, _). utf8_valid (session i) \<and> history_ok (session i)) ?ids"
    by code_simp
  from stamped_history_is_mru [OF mem_xattr_backend m' 1 2] m' show ?thesis
    by (simp add: demo_ident_def MAX_HISTORY_def)
qed

end
