(* ===== verification/Reader.thy ===== *)
theory Reader
  imports Xattrs
begin

text \<open>
  \<^verbatim>\<open>src/reader.rs\<close>: reading the attributes of a path back, the timestamp formats, and the recursive
  walk. \<^verbatim>\<open>chrono\<close> is a parameter (\<open>chrono\<close> below). The walk's \<^verbatim>\<open>while let Some(dir) = stack.pop()\<close> loop is a
  \<open>partial_function\<close>: on a directory structure that does not end it has no value. The list that
  models the stack has its top in front. \<^verbatim>\<open>parse_history\<close> is in the theory of the history ring.
\<close>

section \<open>Records\<close>

record prov_record =
  r_session :: "str option"
  r_tool :: "str option"
  r_turn :: "str option"
  r_intent :: "str option"
  r_ts :: "str option"
  r_history :: "str option"

definition record_is_empty :: "prov_record \<Rightarrow> bool" where
  "record_is_empty r \<longleftrightarrow>
     r_session r = None \<and> r_tool r = None \<and> r_turn r = None \<and> r_intent r = None \<and>
     r_ts r = None \<and> r_history r = None"

definition get_key :: "'w os \<Rightarrow> path \<Rightarrow> str \<Rightarrow> 'w \<Rightarrow> io_error + str option" where
  "get_key os p key w =
     (case os_xattr_get os p key w of
        Inr (Some v) \<Rightarrow> Inr (Some (utf8_lossy v))
      | Inr None \<Rightarrow> Inr None
      | Inl e \<Rightarrow>
          if raw_os_error e = Some ENODATA \<or> raw_os_error e = Some EOPNOTSUPP then Inr None else Inl e)"

definition read_record :: "'w os \<Rightarrow> path \<Rightarrow> 'w \<Rightarrow> io_error + prov_record" where
  "read_record os p w =
     bind_res (os_symlink_metadata os p w) (\<lambda>_.
     bind_res (get_key os p KEY_SESSION w) (\<lambda>s.
     bind_res (get_key os p KEY_TOOL w) (\<lambda>tl.
     bind_res (get_key os p KEY_TURN w) (\<lambda>tn.
     bind_res (get_key os p KEY_INTENT w) (\<lambda>i.
     bind_res (get_key os p KEY_TS w) (\<lambda>ts.
     bind_res (get_key os p KEY_HISTORY w) (\<lambda>h.
       Inr \<lparr>r_session = s, r_tool = tl, r_turn = tn, r_intent = i, r_ts = ts, r_history = h\<rparr>)))))))"

section \<open>Timestamps\<close>

record chrono =
  ch_parse_rfc3339 :: "str \<Rightarrow> int option"
  ch_in_range :: "int \<Rightarrow> bool"
  ch_format_local :: "int \<Rightarrow> str"

record ts_info =
  ts_raw :: str
  ts_unix :: "int option"

definition parse_ts :: "chrono \<Rightarrow> str \<Rightarrow> ts_info" where
  "parse_ts ch raw =
     (let unix = (case parse_i64 (trim raw) of
                    Some n \<Rightarrow> Some n
                  | None \<Rightarrow> ch_parse_rfc3339 ch (trim raw))
      in \<lparr>ts_raw = raw, ts_unix = unix\<rparr>)"

definition render_local :: "chrono \<Rightarrow> int \<Rightarrow> str option" where
  "render_local ch unix = (if ch_in_range ch unix then Some (ch_format_local ch unix) else None)"

section \<open>The walk\<close>

record walk_entry =
  we_path :: path
  we_record :: "io_error + prov_record"

text \<open>The loop over the entries of one directory; \<open>stack\<close> and \<open>out\<close> as in the code.\<close>

fun walk_entries ::
  "'w os \<Rightarrow> 'w \<Rightarrow> path \<Rightarrow> (io_error + dir_entry) list \<Rightarrow> path list \<Rightarrow> walk_entry list
     \<Rightarrow> path list \<times> walk_entry list" where
  "walk_entries os w dir [] stack out = (stack, out)"
| "walk_entries os w dir (Inl e # rest) stack out =
     walk_entries os w dir rest stack (out @ [\<lparr>we_path = dir, we_record = Inl e\<rparr>])"
| "walk_entries os w dir (Inr d # rest) stack out =
     (let p = path_join dir (de_name d)
      in case de_type d of
           Inl e \<Rightarrow> walk_entries os w dir rest stack (out @ [\<lparr>we_path = p, we_record = Inl e\<rparr>])
         | Inr IsSymlink \<Rightarrow> walk_entries os w dir rest stack out
         | Inr IsDir \<Rightarrow> walk_entries os w dir rest (p # stack) out
         | Inr IsFile \<Rightarrow>
             walk_entries os w dir rest stack (out @ [\<lparr>we_path = p, we_record = read_record os p w\<rparr>])
         | Inr IsOther \<Rightarrow> walk_entries os w dir rest stack out)"

partial_function (option) walk_loop ::
  "'w os \<Rightarrow> 'w \<Rightarrow> path list \<Rightarrow> walk_entry list \<Rightarrow> walk_entry list option" where
  "walk_loop os w stack out =
     (case stack of
        [] \<Rightarrow> Some out
      | dir # rest \<Rightarrow>
          (case os_read_dir os dir w of
             Inl e \<Rightarrow> walk_loop os w rest (out @ [\<lparr>we_path = dir, we_record = Inl e\<rparr>])
           | Inr ents \<Rightarrow>
               (let (stack', out') = walk_entries os w dir ents rest out
                in walk_loop os w stack' out')))"

definition walk_files :: "'w os \<Rightarrow> path \<Rightarrow> 'w \<Rightarrow> walk_entry list option" where
  "walk_files os root w = walk_loop os w [root] []"

section \<open>The walk as a recursion over the tree\<close>

definition subdirs :: "path \<Rightarrow> (io_error + dir_entry) list \<Rightarrow> path list" where
  "subdirs dir ents =
     List.map_filter
       (\<lambda>e. case e of Inr d \<Rightarrow> if de_type d = Inr IsDir then Some (path_join dir (de_name d)) else None | Inl _ \<Rightarrow> None)
       ents"

definition own_entry :: "'w os \<Rightarrow> 'w \<Rightarrow> path \<Rightarrow> io_error + dir_entry \<Rightarrow> walk_entry option" where
  "own_entry os w dir e =
     (case e of
        Inl er \<Rightarrow> Some \<lparr>we_path = dir, we_record = Inl er\<rparr>
      | Inr d \<Rightarrow>
          (case de_type d of
             Inl er \<Rightarrow> Some \<lparr>we_path = path_join dir (de_name d), we_record = Inl er\<rparr>
           | Inr IsFile \<Rightarrow>
               Some \<lparr>we_path = path_join dir (de_name d), we_record = read_record os (path_join dir (de_name d)) w\<rparr>
           | Inr _ \<Rightarrow> None))"

fun tree_files :: "'w os \<Rightarrow> 'w \<Rightarrow> nat \<Rightarrow> path \<Rightarrow> walk_entry list" where
  "tree_files os w 0 dir = []"
| "tree_files os w (Suc n) dir =
     (case os_read_dir os dir w of
        Inl e \<Rightarrow> [\<lparr>we_path = dir, we_record = Inl e\<rparr>]
      | Inr ents \<Rightarrow>
          List.map_filter (own_entry os w dir) ents @
          concat (map (tree_files os w n) (rev (subdirs dir ents))))"

text \<open>Directories nest less than \<open>n\<close> deep below \<open>dir\<close>.\<close>

fun depth_below :: "'w os \<Rightarrow> 'w \<Rightarrow> nat \<Rightarrow> path \<Rightarrow> bool" where
  "depth_below os w 0 dir = False"
| "depth_below os w (Suc n) dir =
     (case os_read_dir os dir w of
        Inl e \<Rightarrow> True
      | Inr ents \<Rightarrow> list_all (depth_below os w n) (subdirs dir ents))"

lemma walk_entries_eq:
  "walk_entries os w dir ents stack out =
     (rev (subdirs dir ents) @ stack, out @ List.map_filter (own_entry os w dir) ents)"
  by (induction os w dir ents stack out rule: walk_entries.induct)
    (auto simp: subdirs_def own_entry_def List.map_filter_simps Let_def split: sum.splits entry_type.splits)

lemma walk_loop_tree:
  "depth_below os w n dir \<Longrightarrow>
     walk_loop os w (dir # stack) out = walk_loop os w stack (out @ tree_files os w n dir)"
proof (induction n arbitrary: dir stack out)
  case (Suc n)
  show ?case
  proof (cases "os_read_dir os dir w")
    case (Inl e)
    then show ?thesis by (subst walk_loop.simps) simp
  next
    case (Inr ents)
    have "walk_loop os w (ds @ stack) out = walk_loop os w stack (out @ concat (map (tree_files os w n) ds))"
      if "list_all (depth_below os w n) ds" for ds out
      using that
    proof (induction ds arbitrary: out)
      case (Cons d ds)
      then show ?case using Suc.IH [of d "ds @ stack" out] by simp
    qed simp
    moreover have "list_all (depth_below os w n) (rev (subdirs dir ents))"
      using Suc.prems Inr by (simp add: list_all_iff)
    ultimately show ?thesis
      using Inr by (subst walk_loop.simps) (simp add: walk_entries_eq)
  qed
qed simp

lemma walk_files_tree: "depth_below os w n root \<Longrightarrow> walk_files os root w = Some (tree_files os w n root)"
  by (simp add: walk_files_def walk_loop_tree walk_loop.simps [of _ _ "[]"])

text \<open>A regular file below a directory, through directories only.\<close>

inductive file_below :: "'w os \<Rightarrow> 'w \<Rightarrow> path \<Rightarrow> path \<Rightarrow> bool" for os :: "'w os" and w :: 'w where
  here: "os_read_dir os dir w = Inr ents \<Longrightarrow> Inr d \<in> set ents \<Longrightarrow> de_type d = Inr IsFile \<Longrightarrow>
    file_below os w dir (path_join dir (de_name d))"
| deeper: "os_read_dir os dir w = Inr ents \<Longrightarrow> Inr d \<in> set ents \<Longrightarrow> de_type d = Inr IsDir \<Longrightarrow>
    file_below os w (path_join dir (de_name d)) f \<Longrightarrow> file_below os w dir f"

lemma set_subdirs: "x \<in> set (subdirs dir ents) \<longleftrightarrow>
    (\<exists>d. Inr d \<in> set ents \<and> de_type d = Inr IsDir \<and> x = path_join dir (de_name d))"
  by (force simp: subdirs_def List.map_filter_def split: sum.splits if_splits)

lemma tree_files_complete:
  "file_below os w dir f \<Longrightarrow> depth_below os w n dir \<Longrightarrow>
     \<lparr>we_path = f, we_record = read_record os f w\<rparr> \<in> set (tree_files os w n dir)"
proof (induction arbitrary: n rule: file_below.induct)
  case (here dir ents d)
  then show ?case
    by (cases n) (force simp: List.map_filter_def own_entry_def)+
next
  case (deeper dir ents d f)
  then obtain m where n: "n = Suc m" by (cases n) auto
  have sub: "path_join dir (de_name d) \<in> set (subdirs dir ents)"
    using deeper by (auto simp: set_subdirs)
  then have "\<lparr>we_path = f, we_record = read_record os f w\<rparr> \<in> set (tree_files os w m (path_join dir (de_name d)))"
    using deeper n by (auto simp: list_all_iff)
  with sub deeper(1) n show ?case by auto
qed

lemma tree_files_sound:
  "e \<in> set (tree_files os w n dir) \<Longrightarrow> we_record e = Inr r \<Longrightarrow>
     file_below os w dir (we_path e) \<and> read_record os (we_path e) w = Inr r"
proof (induction n arbitrary: dir)
  case (Suc n)
  show ?case
  proof (cases "os_read_dir os dir w")
    case (Inr ents)
    with Suc.prems consider (own) x where "x \<in> set ents" "own_entry os w dir x = Some e"
      | (sub) d where "d \<in> set (subdirs dir ents)" "e \<in> set (tree_files os w n d)"
      by (auto simp: List.map_filter_def)
    then show ?thesis
    proof cases
      case own
      then show ?thesis using Suc.prems(2) Inr
        by (auto simp: own_entry_def split: sum.splits entry_type.splits intro: file_below.here)
    next
      case sub
      with Suc Inr show ?thesis by (auto simp: set_subdirs intro: file_below.deeper)
    qed
  qed (use Suc.prems in simp)
qed simp

text \<open>
  What cannot be read below a directory, and the error: a directory, one of its entries, the type of
  an entry, or the attributes of a regular file.
\<close>

inductive unreadable :: "'w os \<Rightarrow> 'w \<Rightarrow> path \<Rightarrow> path \<Rightarrow> io_error \<Rightarrow> bool" for os :: "'w os" and w :: 'w where
  dir_fails: "os_read_dir os dir w = Inl e \<Longrightarrow> unreadable os w dir dir e"
| entry_fails: "os_read_dir os dir w = Inr ents \<Longrightarrow> Inl e \<in> set ents \<Longrightarrow> unreadable os w dir dir e"
| type_fails: "os_read_dir os dir w = Inr ents \<Longrightarrow> Inr d \<in> set ents \<Longrightarrow> de_type d = Inl e \<Longrightarrow>
    unreadable os w dir (path_join dir (de_name d)) e"
| file_fails: "os_read_dir os dir w = Inr ents \<Longrightarrow> Inr d \<in> set ents \<Longrightarrow> de_type d = Inr IsFile \<Longrightarrow>
    read_record os (path_join dir (de_name d)) w = Inl e \<Longrightarrow>
    unreadable os w dir (path_join dir (de_name d)) e"
| below_fails: "os_read_dir os dir w = Inr ents \<Longrightarrow> Inr d \<in> set ents \<Longrightarrow> de_type d = Inr IsDir \<Longrightarrow>
    unreadable os w (path_join dir (de_name d)) p e \<Longrightarrow> unreadable os w dir p e"

lemma tree_errors_complete:
  "unreadable os w dir p e \<Longrightarrow> depth_below os w n dir \<Longrightarrow>
     \<lparr>we_path = p, we_record = Inl e\<rparr> \<in> set (tree_files os w n dir)"
proof (induction arbitrary: n rule: unreadable.induct)
  case (below_fails dir ents d p e)
  then obtain m where n: "n = Suc m" by (cases n) auto
  have sub: "path_join dir (de_name d) \<in> set (subdirs dir ents)"
    using below_fails by (auto simp: set_subdirs)
  then have "\<lparr>we_path = p, we_record = Inl e\<rparr> \<in> set (tree_files os w m (path_join dir (de_name d)))"
    using below_fails n by (auto simp: list_all_iff)
  with sub below_fails(1) n show ?case by auto
qed (case_tac n; force simp: List.map_filter_def own_entry_def)+

lemma tree_errors_sound:
  "x \<in> set (tree_files os w n dir) \<Longrightarrow> we_record x = Inl e \<Longrightarrow> unreadable os w dir (we_path x) e"
proof (induction n arbitrary: dir)
  case (Suc n)
  show ?case
  proof (cases "os_read_dir os dir w")
    case (Inl e)
    then show ?thesis using Suc.prems unreadable.dir_fails [of os dir w] by auto
  next
    case (Inr ents)
    with Suc.prems consider (own) y where "y \<in> set ents" "own_entry os w dir y = Some x"
      | (sub) d where "d \<in> set (subdirs dir ents)" "x \<in> set (tree_files os w n d)"
      by (auto simp: List.map_filter_def)
    then show ?thesis
    proof cases
      case own
      then show ?thesis using Suc.prems(2) Inr
        by (auto simp: own_entry_def split: sum.splits entry_type.splits
            intro: unreadable.entry_fails unreadable.type_fails unreadable.file_fails)
    next
      case sub
      with Suc Inr show ?thesis by (auto simp: set_subdirs intro: unreadable.below_fails)
    qed
  qed
qed simp

section \<open>Reading what was stamped\<close>

lemma get_key_attr: "attr os p w key = Inr (Some v) \<Longrightarrow> get_key os p key w = Inr (Some (utf8_lossy v))"
  by (simp add: attr_def get_key_def)

lemma get_key_cong: "attr os p w' key = attr os p w key \<Longrightarrow> get_key os p key w' = get_key os p key w"
  by (simp add: attr_def get_key_def)

lemma read_record_Inr:
  "read_record os p w = Inr r \<longleftrightarrow>
     os_symlink_metadata os p w = Inr () \<and>
     get_key os p KEY_SESSION w = Inr (r_session r) \<and> get_key os p KEY_TOOL w = Inr (r_tool r) \<and>
     get_key os p KEY_TURN w = Inr (r_turn r) \<and> get_key os p KEY_INTENT w = Inr (r_intent r) \<and>
     get_key os p KEY_TS w = Inr (r_ts r) \<and> get_key os p KEY_HISTORY w = Inr (r_history r)"
  by (cases r) (auto simp: read_record_def bind_res_Inr)

definition or_else :: "'a option \<Rightarrow> 'a option \<Rightarrow> 'a option" where
  "or_else a b = (case a of None \<Rightarrow> b | Some x \<Rightarrow> Some x)"

lemma get_key_upd:
  assumes "attr os p w' key = (case ov of None \<Rightarrow> attr os p w key | Some v \<Rightarrow> Inr (Some v))"
    and "get_key os p key w = Inr r" and "\<And>v. ov = Some v \<Longrightarrow> utf8_valid v"
  shows "get_key os p key w' = Inr (or_else ov r)"
  using assms get_key_cong [of os p w' key w] get_key_attr [of os p w' key]
  by (cases ov) (auto simp: or_else_def)

definition ident_utf8 :: "identity \<Rightarrow> bool" where
  "ident_utf8 i \<longleftrightarrow>
     utf8_valid (session i) \<and> utf8_valid (tool i) \<and>
     (case turn i of None \<Rightarrow> True | Some t \<Rightarrow> utf8_valid t) \<and>
     (case intent i of None \<Rightarrow> True | Some t \<Rightarrow> utf8_valid t)"

lemma mem_read_record:
  assumes "mem_node m p \<noteq> None"
  shows "\<exists>r. read_record mem_os p m = Inr r"
proof -
  have key: "\<exists>v. get_key mem_os p key m = Inr v" for key
    using assms by (auto simp: get_key_def mem_os_def split: option.splits)
  have "os_symlink_metadata mem_os p m = Inr ()" using assms by (auto simp: mem_os_def)
  then show ?thesis
    using key [of KEY_SESSION] key [of KEY_TOOL] key [of KEY_TURN] key [of KEY_INTENT] key [of KEY_TS]
      key [of KEY_HISTORY] by (auto simp: read_record_def)
qed

section \<open>Properties\<close>

text \<open>
  C25. What is stamped is what is read. Reading a path after a successful stamp gives the record
  that was there before with session, tool, timestamp and history replaced by those of the stamp;
  turn and intent are replaced when the new identity has them, and otherwise stay those of an
  earlier writer.
\<close>

theorem stamp_then_read:
  assumes "xattr_backend os p" and "stamp os p ident now w = (Inr (), w')"
    and "ident_utf8 ident" and "utf8_valid now" and "utf8_valid (prior_history os p w)"
    and "read_record os p w = Inr r" and "os_symlink_metadata os p w' = Inr ()"
  shows "read_record os p w' =
    Inr \<lparr>r_session = Some (session ident), r_tool = Some (tool ident),
         r_turn = or_else (turn ident) (r_turn r), r_intent = or_else (intent ident) (r_intent r),
         r_ts = Some now,
         r_history = Some (push_history (prior_history os p w) (session ident))\<rparr>"
proof -
  note attrs = stamp_attrs [OF assms(1,2)]
  have hist: "utf8_valid (push_history (prior_history os p w) (session ident))"
    using assms(3,5) by (auto simp: ident_utf8_def intro: utf8_valid_push)
  have old: "get_key os p KEY_TURN w = Inr (r_turn r)" "get_key os p KEY_INTENT w = Inr (r_intent r)"
    using assms(6) by (simp_all add: read_record_Inr)
  have "get_key os p KEY_TURN w' = Inr (or_else (turn ident) (r_turn r))"
    using assms(3) by (intro get_key_upd [OF _ old(1)]) (auto simp: attrs upd_opt_def ident_utf8_def split: option.splits)
  moreover have "get_key os p KEY_INTENT w' = Inr (or_else (intent ident) (r_intent r))"
    using assms(3) by (intro get_key_upd [OF _ old(2)]) (auto simp: attrs upd_opt_def ident_utf8_def split: option.splits)
  ultimately show ?thesis
    using assms(3,4,7) hist
    by (simp add: read_record_Inr get_key_attr attrs ident_utf8_def)
qed

theorem stamp_then_read_witness:
  "\<exists>m'. stamp mem_os ''/f'' demo_ident ''t1'' (mem_files [(''/f'', [])]) = (Inr (), m') \<and>
     read_record mem_os ''/f'' m' =
       Inr \<lparr>r_session = Some ''S1'', r_tool = Some ''Edit'', r_turn = Some ''3'', r_intent = None,
            r_ts = Some ''t1'', r_history = Some (push_history [] ''S1'')\<rparr>"
proof -
  let ?m = "mem_files [(''/f'', [])]"
  obtain m' where m': "stamp mem_os ''/f'' demo_ident ''t1'' ?m = (Inr (), m')"
    and meta: "os_symlink_metadata mem_os ''/f'' m' = Inr ()"
    by (simp add: stamp_defs io_then_def io_ok_def mem_os_def mem_on_def mem_node_def mem_put_def
        mem_files_def demo_ident_def Let_def)
  have prior: "prior_history mem_os ''/f'' ?m = []"
    by (simp add: prior_history_def read_str_def mem_os_def mem_node_def mem_files_def plain_node_def)
  have r: "read_record mem_os ''/f'' ?m = Inr \<lparr>r_session = None, r_tool = None, r_turn = None,
      r_intent = None, r_ts = None, r_history = None\<rparr>"
    by (simp add: read_record_def get_key_def mem_os_def mem_node_def mem_files_def plain_node_def)
  have u: "ident_utf8 demo_ident" "utf8_valid ''t1''" "utf8_valid []" by code_simp+
  from stamp_then_read [OF mem_xattr_backend m' u(1,2) _ r meta] u(3) m' show ?thesis
    by (simp add: prior demo_ident_def or_else_def)
qed

text \<open>
  C26. The walk terminates and finds exactly the files. When directories nest to a finite depth,
  \<^verbatim>\<open>walk_files\<close> returns; every regular file reachable from the root through real directories is in
  the result with the record read off it, every record in the result was read off such a file,
  and symbolic links contribute nothing.
\<close>

theorem walk_visits_exactly_the_files:
  assumes "depth_below os w n root"
  shows "\<exists>out. walk_files os root w = Some out \<and>
    (\<forall>f. file_below os w root f \<longrightarrow> \<lparr>we_path = f, we_record = read_record os f w\<rparr> \<in> set out) \<and>
    (\<forall>e r. e \<in> set out \<longrightarrow> we_record e = Inr r \<longrightarrow>
       file_below os w root (we_path e) \<and> read_record os (we_path e) w = Inr r)"
  by (intro exI [of _ "tree_files os w n root"] conjI allI impI walk_files_tree [OF assms]
      tree_files_complete [OF _ assms]) (simp_all add: tree_files_sound)

definition tree_mem :: mem where
  "tree_mem = (mem_files [])\<lparr>m_nodes := [(''/t'', plain_node IsDir []), (''/t/a'', plain_node IsFile []),
     (''/t/d'', plain_node IsDir []), (''/t/l'', plain_node IsSymlink []), (''/t/d/b'', plain_node IsFile [])]\<rparr>"

lemma tree_mem_dirs:
  "os_read_dir mem_os ''/t'' tree_mem =
     Inr [Inr \<lparr>de_name = ''a'', de_type = Inr IsFile\<rparr>, Inr \<lparr>de_name = ''d'', de_type = Inr IsDir\<rparr>,
          Inr \<lparr>de_name = ''l'', de_type = Inr IsSymlink\<rparr>]"
  "os_read_dir mem_os ''/t/d'' tree_mem = Inr [Inr \<lparr>de_name = ''b'', de_type = Inr IsFile\<rparr>]"
  by (simp_all add: mem_os_def mem_node_def tree_mem_def mem_children_def plain_node_def)

theorem walk_visits_exactly_the_files_witness:
  "\<exists>out. walk_files mem_os ''/t'' tree_mem = Some out \<and>
     \<lparr>we_path = ''/t/d/b'', we_record = read_record mem_os ''/t/d/b'' tree_mem\<rparr> \<in> set out"
proof -
  have "depth_below mem_os tree_mem 2 ''/t''"
    by (simp add: numeral_2_eq_2 tree_mem_dirs subdirs_def List.map_filter_def path_join_def has_root_def)
  moreover have "file_below mem_os tree_mem ''/t/d'' ''/t/d/b''"
    using file_below.here [OF tree_mem_dirs(2)] by (simp add: path_join_def has_root_def)
  then have "file_below mem_os tree_mem ''/t'' ''/t/d/b''"
    using file_below.deeper [OF tree_mem_dirs(1), of "\<lparr>de_name = ''d'', de_type = Inr IsDir\<rparr>"]
    by (simp add: path_join_def has_root_def)
  ultimately show ?thesis using walk_visits_exactly_the_files [of mem_os tree_mem 2 "''/t''"] by blast
qed

text \<open>
  Missing provenance is not an error: a path that exists and whose six attributes are absent,
  or whose file system has no extended attributes, reads as an empty record, and no other error
  is hidden: a read that fails reports the failure of the metadata call or of one attribute.
\<close>

definition absent :: "'w os \<Rightarrow> path \<Rightarrow> 'w \<Rightarrow> str \<Rightarrow> bool" where
  "absent os p w key \<longleftrightarrow>
     os_xattr_get os p key w \<in> {Inr None, Inl (Os ENODATA), Inl (Os EOPNOTSUPP)}"

definition prov_keys :: "str list" where
  "prov_keys = [KEY_SESSION, KEY_TOOL, KEY_TURN, KEY_INTENT, KEY_TS, KEY_HISTORY]"

theorem unstamped_reads_empty:
  "(os_symlink_metadata os p w = Inr () \<longrightarrow> list_all (absent os p w) prov_keys \<longrightarrow>
      (\<exists>r. read_record os p w = Inr r \<and> record_is_empty r)) \<and>
   (read_record os p w = Inl e \<longrightarrow>
      os_symlink_metadata os p w = Inl e \<or>
      (\<exists>key \<in> set prov_keys. os_xattr_get os p key w = Inl e \<and> \<not> absent os p w key))"
proof (intro conjI impI)
  have "absent os p w key \<Longrightarrow> get_key os p key w = Inr None" for key
    by (auto simp: absent_def get_key_def)
  then show "\<exists>r. read_record os p w = Inr r \<and> record_is_empty r"
    if "os_symlink_metadata os p w = Inr ()" "list_all (absent os p w) prov_keys"
    using that by (simp add: read_record_def prov_keys_def record_is_empty_def)
next
  have "get_key os p key w = Inl e \<Longrightarrow> os_xattr_get os p key w = Inl e \<and> \<not> absent os p w key" for key
    by (auto simp: absent_def get_key_def split: sum.splits option.splits if_splits)
  moreover assume "read_record os p w = Inl e"
  ultimately show "os_symlink_metadata os p w = Inl e \<or>
      (\<exists>key \<in> set prov_keys. os_xattr_get os p key w = Inl e \<and> \<not> absent os p w key)"
    by (auto simp: read_record_def bind_res_def prov_keys_def split: sum.splits)
qed

theorem unstamped_reads_empty_witness:
  "\<exists>r. read_record mem_os ''/f'' (mem_files [(''/f'', [])]) = Inr r \<and> record_is_empty r"
proof -
  have "os_symlink_metadata mem_os ''/f'' (mem_files [(''/f'', [])]) = Inr ()"
    and "list_all (absent mem_os ''/f'' (mem_files [(''/f'', [])])) prov_keys"
    by (simp_all add: absent_def prov_keys_def mem_os_def mem_node_def mem_files_def plain_node_def)
  then show ?thesis using unstamped_reads_empty [of mem_os "''/f''" "mem_files [(''/f'', [])]"] by blast
qed

text \<open>
  Both timestamp formats are understood: the kernel's decimal seconds, for every value of a
  64-bit clock, and whatever instant the RFC 3339 parser finds in a text that is not a number.
  The raw text is kept unchanged in all cases.
\<close>

theorem parse_ts_both_formats:
  "(int n \<le> i64_max \<longrightarrow> parse_ts ch (dec_str n) = \<lparr>ts_raw = dec_str n, ts_unix = Some (int n)\<rparr>) \<and>
   (parse_i64 (trim raw) = None \<longrightarrow>
      parse_ts ch raw = \<lparr>ts_raw = raw, ts_unix = ch_parse_rfc3339 ch (trim raw)\<rparr>)"
proof -
  have "trim (dec_str n) = dec_str n"
    by (rule trim_trimmed) (rule trimmed_dec_str)
  then show ?thesis by (simp add: parse_ts_def parse_i64_dec_str)
qed

definition demo_chrono :: chrono where
  "demo_chrono =
     \<lparr>ch_parse_rfc3339 = (\<lambda>s. if s = ''2026-05-24T00:00:00+00:00'' then Some 1779580800 else None),
      ch_in_range = (\<lambda>n. \<bar>n\<bar> < 8000000000000), ch_format_local = (\<lambda>n. ''day '' @ dec_str (nat (n div 86400)))\<rparr>"

theorem parse_ts_both_formats_witness:
  "parse_ts demo_chrono (dec_str 1717123456) = \<lparr>ts_raw = dec_str 1717123456, ts_unix = Some 1717123456\<rparr> \<and>
   ts_unix (parse_ts demo_chrono ''2026-05-24T00:00:00+00:00'') = Some 1779580800"
proof -
  have "trim ''2026-05-24T00:00:00+00:00'' = ''2026-05-24T00:00:00+00:00''"
    and "parse_i64 ''2026-05-24T00:00:00+00:00'' = None" by code_simp+
  then show ?thesis
    using parse_ts_both_formats [of 1717123456 demo_chrono "''2026-05-24T00:00:00+00:00''"]
    by (simp add: i64_max_def demo_chrono_def)
qed

end
