(* ===== verification/Prov_Cli.thy ===== *)
theory Prov_Cli
  imports Session Duration Reader
begin

text \<open>
  The reader program, \<^verbatim>\<open>src/bin/prov.rs\<close>. A command returns the lines it prints and its exit code.
  A line of text is \<open>Line\<close>, a line of JSON is \<open>Json\<close> with the value that \<^verbatim>\<open>serde_json\<close> prints, the
  lines on standard error are \<open>ErrPath\<close> and \<open>ErrSince\<close> with the values formatted into them;
  \<open>out_text\<close> is the text of each.
  \<^verbatim>\<open>find\<close> may not return on an endless directory structure, so its result is an option. The
  arguments come parsed from \<^verbatim>\<open>clap\<close>.
\<close>

datatype json = JNull | JStr str | JInt int | JArr "json list" | JObj "(str \<times> json) list"

datatype out_line = Line str | Json json | ErrPath path io_error | ErrSince duration_error

datatype exit_code = SUCCESS | FAILURE | ExitFrom nat

type_synonym cmd_result = "out_line list \<times> exit_code"

definition json_opt :: "('a \<Rightarrow> json) \<Rightarrow> 'a option \<Rightarrow> json" where
  "json_opt f x = (case x of None \<Rightarrow> JNull | Some v \<Rightarrow> f v)"

text \<open>
  The text of a line. The printing of an \<^verbatim>\<open>io::Error\<close>, the quoting of \<^verbatim>\<open>{:?}\<close> and the text of a JSON
  value are those of the libraries, and parameters. \<^verbatim>\<open>path.display()\<close> decodes the path lossily.
\<close>

record printers =
  pr_io :: "io_error \<Rightarrow> str"
  pr_debug :: "str \<Rightarrow> str"
  pr_json :: "json \<Rightarrow> str"

fun duration_text :: "printers \<Rightarrow> duration_error \<Rightarrow> str" where
  "duration_text pr EmptyDuration = ''empty duration''"
| "duration_text pr (MissingUnit s) = ''duration '' @ pr_debug pr s @ '' is missing a unit suffix (s/m/h/d)''"
| "duration_text pr (MissingMagnitude s) = ''duration '' @ pr_debug pr s @ '' is missing a numeric magnitude''"
| "duration_text pr (InvalidMagnitude s) = ''duration '' @ pr_debug pr s @ '' has an invalid magnitude''"
| "duration_text pr (UnknownUnit s other) =
     ''duration '' @ pr_debug pr s @ '' has unknown unit '' @ pr_debug pr other @ '' (expected s/m/h/d)''"

fun out_text :: "printers \<Rightarrow> out_line \<Rightarrow> str" where
  "out_text pr (Line s) = s"
| "out_text pr (Json j) = pr_json pr j"
| "out_text pr (ErrPath p e) = ''prov: '' @ utf8_lossy p @ '': '' @ pr_io pr e"
| "out_text pr (ErrSince e) = ''prov: invalid --since: '' @ duration_text pr e"

section \<open>Sessions\<close>

definition fallback_human :: "fallback_fields \<Rightarrow> str" where
  "fallback_human f =
     (let chain = unwrap_or (comm_chain f) ''?'';
          s0 = ''fallback: comm-chain='' @ chain;
          s1 = (case uid_tag f of Some u \<Rightarrow> s0 @ '' uid='' @ u | None \<Rightarrow> s0);
          s2 = (case pid_tag f of Some p \<Rightarrow> s1 @ '' pid='' @ p | None \<Rightarrow> s1);
          s3 = (case cwd f of Some c \<Rightarrow> s2 @ '' cwd='' @ c | None \<Rightarrow> s2)
      in case env_tag f of Some e \<Rightarrow> s3 @ '' env='' @ e | None \<Rightarrow> s3)"

fun session_kind_human :: "session_kind \<Rightarrow> str" where
  "session_kind_human (AgentNs i) = ''agentns session '' @ i"
| "session_kind_human (EnrichedFallback f) = fallback_human f"
| "session_kind_human (LegacyFallback comm pid) = ''fallback: comm='' @ comm @ '' pid='' @ pid"
| "session_kind_human (Opaque raw) = ''unrecognized: '' @ raw"

fun session_kind_json :: "session_kind \<Rightarrow> json" where
  "session_kind_json (AgentNs i) = JObj [(''kind'', JStr ''agentns''), (''id'', JStr i)]"
| "session_kind_json (EnrichedFallback f) =
     JObj [(''kind'', JStr ''enriched_fallback''), (''comm_chain'', json_opt JStr (comm_chain f)),
           (''env'', json_opt JStr (env_tag f)), (''cwd'', json_opt JStr (cwd f)),
           (''pid'', json_opt JStr (pid_tag f)), (''uid'', json_opt JStr (uid_tag f))]"
| "session_kind_json (LegacyFallback comm pid) =
     JObj [(''kind'', JStr ''legacy_fallback''), (''comm'', JStr comm), (''pid'', JStr pid)]"
| "session_kind_json (Opaque raw) = JObj [(''kind'', JStr ''opaque''), (''raw'', JStr raw)]"

section \<open>Commands on one path\<close>

definition load_record :: "'w os \<Rightarrow> path \<Rightarrow> 'w \<Rightarrow> cmd_result + prov_record" where
  "load_record os p w =
     (case read_record os p w of Inr r \<Rightarrow> Inr r | Inl e \<Rightarrow> Inl ([ErrPath p e], FAILURE))"

definition no_provenance :: "bool \<Rightarrow> cmd_result" where
  "no_provenance js = ([if js then Json (JObj []) else Line ''no provenance''], SUCCESS)"

definition ts_local :: "chrono \<Rightarrow> ts_info \<Rightarrow> str option" where
  "ts_local ch info = (case ts_unix info of None \<Rightarrow> None | Some u \<Rightarrow> render_local ch u)"

definition ts_json :: "chrono \<Rightarrow> str \<Rightarrow> json" where
  "ts_json ch raw =
     (let info = parse_ts ch raw
      in JObj [(''raw'', JStr (ts_raw info)), (''unix'', json_opt JInt (ts_unix info)),
               (''local'', json_opt JStr (ts_local ch info))])"

definition ts_human_line :: "chrono \<Rightarrow> str \<Rightarrow> str" where
  "ts_human_line ch raw =
     (let info = parse_ts ch raw
      in case ts_local ch info of
           Some local \<Rightarrow> local @ '' (raw: '' @ raw @ '')''
         | None \<Rightarrow> ''(unparseable; raw: '' @ raw @ '')'')"

definition line_opt :: "('a \<Rightarrow> str) \<Rightarrow> 'a option \<Rightarrow> out_line list" where
  "line_opt f x = (case x of None \<Rightarrow> [] | Some v \<Rightarrow> [Line (f v)])"

definition cmd_show :: "'w os \<Rightarrow> chrono \<Rightarrow> path \<Rightarrow> bool \<Rightarrow> 'w \<Rightarrow> cmd_result" where
  "cmd_show os ch p js w =
     (case load_record os p w of
        Inl res \<Rightarrow> res
      | Inr r \<Rightarrow>
          if record_is_empty r then no_provenance js
          else if js then
            ([Json (JObj
                [(''session'', json_opt (\<lambda>s. session_kind_json (classify s)) (r_session r)),
                 (''tool'', json_opt JStr (r_tool r)),
                 (''turn'', json_opt JStr (r_turn r)),
                 (''intent'', json_opt JStr (r_intent r)),
                 (''ts'', json_opt (ts_json ch) (r_ts r)),
                 (''history'', json_opt (\<lambda>h. JArr (map JStr (parse_history h))) (r_history r))])],
             SUCCESS)
          else
            (Line (''path:    '' @ utf8_lossy p)
             # line_opt (\<lambda>s. ''session: '' @ s @ '' ('' @ session_kind_human (classify s) @ '')'') (r_session r)
             @ line_opt (\<lambda>t. ''tool:    '' @ t) (r_tool r)
             @ line_opt (\<lambda>t. ''turn:    '' @ t) (r_turn r)
             @ line_opt (\<lambda>i. ''intent:  '' @ i) (r_intent r)
             @ line_opt (\<lambda>t. ''ts:      '' @ ts_human_line ch t) (r_ts r)
             @ line_opt (\<lambda>h. ''history: '' @ join_with '', '' (parse_history h)) (r_history r),
             SUCCESS))"

definition cmd_who :: "'w os \<Rightarrow> path \<Rightarrow> bool \<Rightarrow> 'w \<Rightarrow> cmd_result" where
  "cmd_who os p js w =
     (case load_record os p w of
        Inl res \<Rightarrow> res
      | Inr r \<Rightarrow>
          (case r_session r of
             None \<Rightarrow> no_provenance js
           | Some s \<Rightarrow>
               (let kind = classify s
                in ([if js then Json (session_kind_json kind) else Line (session_kind_human kind)], SUCCESS))))"

definition cmd_when :: "'w os \<Rightarrow> chrono \<Rightarrow> path \<Rightarrow> bool \<Rightarrow> 'w \<Rightarrow> cmd_result" where
  "cmd_when os ch p js w =
     (case load_record os p w of
        Inl res \<Rightarrow> res
      | Inr r \<Rightarrow>
          (case r_ts r of
             None \<Rightarrow> no_provenance js
           | Some ts \<Rightarrow> ([if js then Json (ts_json ch ts) else Line (ts_human_line ch ts)], SUCCESS)))"

text \<open>\<^verbatim>\<open>m.insert("raw", ..)\<close> on the object of one session.\<close>

definition json_insert :: "str \<Rightarrow> json \<Rightarrow> json \<Rightarrow> json" where
  "json_insert k v j = (case j of JObj kvs \<Rightarrow> JObj (AList.update k v kvs) | _ \<Rightarrow> j)"

definition cmd_chain :: "'w os \<Rightarrow> path \<Rightarrow> bool \<Rightarrow> 'w \<Rightarrow> cmd_result" where
  "cmd_chain os p js w =
     (case load_record os p w of
        Inl res \<Rightarrow> res
      | Inr r \<Rightarrow>
          (case r_history r of
             None \<Rightarrow> no_provenance js
           | Some h \<Rightarrow>
               (let ents = parse_history h
                in if ents = [] then no_provenance js
                   else if js then
                     ([Json (JArr (map (\<lambda>s. json_insert ''raw'' (JStr s) (session_kind_json (classify s))) ents))],
                      SUCCESS)
                   else
                     (map (\<lambda>(i, s). Line (dec_str i @ '': '' @ session_kind_human (classify s))) (enumerate 0 ents),
                      SUCCESS))))"

section \<open>Find\<close>

record find_query =
  fq_tool :: "str option"
  fq_since :: "str option"
  fq_session :: "str option"
  fq_intent :: "str option"

definition find_cutoff :: "'w os \<Rightarrow> 'w \<Rightarrow> str option \<Rightarrow> duration_error + int option" where
  "find_cutoff os w since =
     (case since of
        None \<Rightarrow> Inr None
      | Some s \<Rightarrow>
          (case parse_duration s of
             Inl e \<Rightarrow> Inl e
           | Inr dur \<Rightarrow>
               (let now_secs = i64_from_u64 (os_now_secs os w); dur_secs = i64_from_u64 dur
                in Inr (Some (i64_saturating_sub now_secs dur_secs)))))"

definition recent :: "chrono \<Rightarrow> int \<Rightarrow> prov_record \<Rightarrow> bool" where
  "recent ch cutoff r =
     (case r_ts r of
        None \<Rightarrow> False
      | Some t \<Rightarrow> (case ts_unix (parse_ts ch t) of None \<Rightarrow> False | Some u \<Rightarrow> cutoff \<le> u))"

text \<open>The loop over the walk's entries; every \<^verbatim>\<open>continue\<close> is a call that leaves \<open>ms\<close> as it is.\<close>

fun find_loop ::
  "chrono \<Rightarrow> find_query \<Rightarrow> int option \<Rightarrow> walk_entry list \<Rightarrow> out_line list \<Rightarrow> bool
     \<Rightarrow> (path \<times> prov_record) list \<Rightarrow> out_line list \<times> bool \<times> (path \<times> prov_record) list" where
  "find_loop ch q cutoff [] errs had_error ms = (errs, had_error, ms)"
| "find_loop ch q cutoff (e # rest) errs had_error ms =
     (case we_record e of
        Inl er \<Rightarrow> find_loop ch q cutoff rest (errs @ [ErrPath (we_path e) er]) True ms
      | Inr r \<Rightarrow>
          if record_is_empty r then find_loop ch q cutoff rest errs had_error ms
          else if (case fq_tool q of None \<Rightarrow> False | Some t \<Rightarrow> r_tool r \<noteq> Some t)
            then find_loop ch q cutoff rest errs had_error ms
          else if (case fq_session q of None \<Rightarrow> False
                   | Some pre \<Rightarrow> \<not> (case r_session r of None \<Rightarrow> False | Some s \<Rightarrow> prefix pre s))
            then find_loop ch q cutoff rest errs had_error ms
          else if (case fq_intent q of None \<Rightarrow> False | Some i \<Rightarrow> r_intent r \<noteq> Some i)
            then find_loop ch q cutoff rest errs had_error ms
          else if (case cutoff of None \<Rightarrow> False | Some c \<Rightarrow> \<not> recent ch c r)
            then find_loop ch q cutoff rest errs had_error ms
          else find_loop ch q cutoff rest errs had_error (ms @ [(we_path e, r)]))"

definition tab :: str where "tab = [CHR 0x09]"

definition find_output :: "bool \<Rightarrow> (path \<times> prov_record) list \<Rightarrow> out_line list" where
  "find_output js ms =
     (if js then
        [Json (JArr (map (\<lambda>(p, r).
           JObj [(''path'', JStr (utf8_lossy p)), (''session'', json_opt JStr (r_session r)),
                 (''tool'', json_opt JStr (r_tool r)), (''turn'', json_opt JStr (r_turn r)),
                 (''intent'', json_opt JStr (r_intent r)), (''ts'', json_opt JStr (r_ts r))]) ms))]
      else
        map (\<lambda>(p, r). Line (utf8_lossy p @ tab @ ''tool='' @ unwrap_or (r_tool r) ''-''
               @ tab @ ''session='' @ unwrap_or (r_session r) ''-''
               @ tab @ ''ts='' @ unwrap_or (r_ts r) ''-'')) ms)"

definition cmd_find :: "'w os \<Rightarrow> chrono \<Rightarrow> path \<Rightarrow> find_query \<Rightarrow> bool \<Rightarrow> 'w \<Rightarrow> cmd_result option" where
  "cmd_find os ch root q js w =
     (case find_cutoff os w (fq_since q) of
        Inl e \<Rightarrow> Some ([ErrSince e], FAILURE)
      | Inr cutoff \<Rightarrow>
          (case walk_files os root w of
             None \<Rightarrow> None
           | Some ents \<Rightarrow>
               (let (errs, had_error, ms) = find_loop ch q cutoff ents [] False []
                in Some (errs @ find_output js ms, if had_error \<and> ms = [] then FAILURE else SUCCESS))))"

section \<open>The program\<close>

datatype prov_command =
    Show path bool
  | Who path bool
  | When path bool
  | Chain path bool
  | Find path find_query bool

fun prov_main :: "'w os \<Rightarrow> chrono \<Rightarrow> prov_command \<Rightarrow> 'w \<Rightarrow> cmd_result option" where
  "prov_main os ch (Show p js) w = Some (cmd_show os ch p js w)"
| "prov_main os ch (Who p js) w = Some (cmd_who os p js w)"
| "prov_main os ch (When p js) w = Some (cmd_when os ch p js w)"
| "prov_main os ch (Chain p js) w = Some (cmd_chain os p js w)"
| "prov_main os ch (Find root q js) w = cmd_find os ch root q js w"

lemmas cmd_defs [op_defs] = cmd_show_def cmd_who_def cmd_when_def cmd_chain_def load_record_def

section \<open>The search as a filter\<close>

definition find_match :: "chrono \<Rightarrow> find_query \<Rightarrow> int option \<Rightarrow> prov_record \<Rightarrow> bool" where
  "find_match ch q cutoff r \<longleftrightarrow>
     \<not> record_is_empty r \<and>
     (case fq_tool q of None \<Rightarrow> True | Some t \<Rightarrow> r_tool r = Some t) \<and>
     (case fq_session q of None \<Rightarrow> True | Some pre \<Rightarrow> (\<exists>s \<in> set_option (r_session r). prefix pre s)) \<and>
     (case fq_intent q of None \<Rightarrow> True | Some i \<Rightarrow> r_intent r = Some i) \<and>
     (case cutoff of None \<Rightarrow> True | Some c \<Rightarrow> recent ch c r)"

definition walk_error :: "walk_entry \<Rightarrow> (path \<times> io_error) option" where
  "walk_error e = (case we_record e of Inl er \<Rightarrow> Some (we_path e, er) | Inr _ \<Rightarrow> None)"

definition walk_match :: "chrono \<Rightarrow> find_query \<Rightarrow> int option \<Rightarrow> walk_entry \<Rightarrow> (path \<times> prov_record) option" where
  "walk_match ch q cutoff e =
     (case we_record e of
        Inl _ \<Rightarrow> None
      | Inr r \<Rightarrow> if find_match ch q cutoff r then Some (we_path e, r) else None)"

text \<open>The errors among the walk's entries, and the matches, each in the walk's order.\<close>

definition walk_errors :: "walk_entry list \<Rightarrow> (path \<times> io_error) list" where
  "walk_errors ents = List.map_filter walk_error ents"

definition walk_matches ::
    "chrono \<Rightarrow> find_query \<Rightarrow> int option \<Rightarrow> walk_entry list \<Rightarrow> (path \<times> prov_record) list" where
  "walk_matches ch q cutoff ents = List.map_filter (walk_match ch q cutoff) ents"

definition error_lines :: "(path \<times> io_error) list \<Rightarrow> out_line list" where
  "error_lines es = map (\<lambda>(p, e). ErrPath p e) es"

lemma find_loop_eq:
  "find_loop ch q cutoff ents errs had_error ms =
     (errs @ error_lines (walk_errors ents), had_error \<or> walk_errors ents \<noteq> [],
      ms @ walk_matches ch q cutoff ents)"
  unfolding walk_errors_def walk_matches_def error_lines_def
proof (induction ents arbitrary: errs had_error ms)
  case (Cons e ents)
  show ?case
  proof (cases "we_record e")
    case (Inl er)
    then show ?thesis
      using Cons.IH [of "errs @ [ErrPath (we_path e) er]" True ms]
      by (simp add: List.map_filter_simps walk_error_def walk_match_def)
  next
    case (Inr r)
    have "find_loop ch q cutoff (e # ents) errs had_error ms =
        find_loop ch q cutoff ents errs had_error (if find_match ch q cutoff r then ms @ [(we_path e, r)] else ms)"
      using Inr by (auto simp: find_match_def split: option.splits)
    then show ?thesis
      using Inr Cons.IH by (simp add: List.map_filter_simps walk_error_def walk_match_def)
  qed
qed (simp add: List.map_filter_simps)

lemma set_walk_matches:
  "(f, r) \<in> set (walk_matches ch q cutoff ents) \<longleftrightarrow>
     (\<exists>e \<in> set ents. we_path e = f \<and> we_record e = Inr r) \<and> find_match ch q cutoff r"
  by (force simp: walk_matches_def List.map_filter_def walk_match_def split: sum.splits if_splits)

lemma set_walk_errors:
  "(p, e) \<in> set (walk_errors ents) \<longleftrightarrow> (\<exists>x \<in> set ents. we_path x = p \<and> we_record x = Inl e)"
  by (force simp: walk_errors_def List.map_filter_def walk_error_def split: sum.splits)

text \<open>What a search prints, from the tree below its root.\<close>

definition find_result ::
    "chrono \<Rightarrow> find_query \<Rightarrow> int option \<Rightarrow> bool \<Rightarrow> walk_entry list \<Rightarrow> cmd_result" where
  "find_result ch q cutoff js ents =
     (error_lines (walk_errors ents) @ find_output js (walk_matches ch q cutoff ents),
      if walk_errors ents \<noteq> [] \<and> walk_matches ch q cutoff ents = [] then FAILURE else SUCCESS)"

lemma cmd_find_tree:
  assumes "depth_below os w n root" and "find_cutoff os w (fq_since q) = Inr cutoff"
  shows "cmd_find os ch root q js w = Some (find_result ch q cutoff js (tree_files os w n root))"
  using assms(2) walk_files_tree [OF assms(1)] by (simp add: cmd_find_def find_loop_eq Let_def find_result_def)

lemma tree_matches:
  assumes "depth_below os w n root"
  shows "(f, r) \<in> set (walk_matches ch q cutoff (tree_files os w n root)) \<longleftrightarrow>
    file_below os w root f \<and> read_record os f w = Inr r \<and> find_match ch q cutoff r"
  using tree_files_sound [of _ os w n root r] tree_files_complete [OF _ assms, of f]
  unfolding set_walk_matches by force

lemma tree_errors:
  assumes "depth_below os w n root"
  shows "(p, e) \<in> set (walk_errors (tree_files os w n root)) \<longleftrightarrow> unreadable os w root p e"
  using tree_errors_sound [of _ os w n root e] tree_errors_complete [OF _ assms, of p e]
  unfolding set_walk_errors by force

lemma find_cutoff_Inr:
  assumes "parse_duration s = Inr dur" and "uint (os_now_secs os w) \<le> i64_max"
  shows "find_cutoff os w (Some s) = Inr (Some (uint (os_now_secs os w) - min (uint dur) i64_max))"
proof -
  have "i64_saturating_sub a b = a - b" if "0 \<le> a" "a \<le> i64_max" "0 \<le> b" "b \<le> i64_max" for a b
    using that by (simp add: i64_saturating_sub_def i64_min_def i64_max_def)
  from this [of "uint (os_now_secs os w)" "min (uint dur) i64_max"] show ?thesis
    using assms by (auto simp: find_cutoff_def i64_from_u64_def i64_max_def min_def)
qed

section \<open>Properties\<close>

text \<open>
  C12. \<^verbatim>\<open>prov find\<close> returns, and prints exactly the errors and the files asked for: with a valid
  \<^verbatim>\<open>--since\<close> and directories of finite depth, it prints one error for each entry of the walk that could
  not be read and then the list of the matches, in the walk's order. An error is printed for a path if
  and only if that directory, entry, type or record could not be read; a file is among the matches if
  and only if it is a regular file below the root, its record can be read, is not empty, and satisfies
  every given filter. The exit code is a failure exactly when something could not be read and nothing
  matched.
\<close>

theorem find_prints_exactly_the_matches:
  assumes "depth_below os w n root" and "find_cutoff os w (fq_since q) = Inr cutoff"
  shows "\<exists>ents errs ms. walk_files os root w = Some ents \<and>
    errs = walk_errors ents \<and> ms = walk_matches ch q cutoff ents \<and>
    cmd_find os ch root q js w = Some (map (\<lambda>(p, e). ErrPath p e) errs @ find_output js ms,
      if errs \<noteq> [] \<and> ms = [] then FAILURE else SUCCESS) \<and>
    (\<forall>p e. (p, e) \<in> set errs \<longleftrightarrow> unreadable os w root p e) \<and>
    (\<forall>f r. (f, r) \<in> set ms \<longleftrightarrow>
       file_below os w root f \<and> read_record os f w = Inr r \<and> find_match ch q cutoff r)"
  by (intro exI [of _ "tree_files os w n root"] exI [of _ "walk_errors (tree_files os w n root)"]
      exI [of _ "walk_matches ch q cutoff (tree_files os w n root)"] conjI refl allI walk_files_tree [OF assms(1)]
      tree_errors [OF assms(1)] tree_matches [OF assms(1)])
    (simp add: cmd_find_tree [OF assms] find_result_def error_lines_def)
definition demo_query :: find_query where
  "demo_query = \<lparr>fq_tool = Some ''Edit'', fq_since = None, fq_session = None, fq_intent = None\<rparr>"

definition find_mem :: mem where
  "find_mem = (mem_files [])\<lparr>m_nodes := [(''/t'', plain_node IsDir []), (''/t/a'', plain_node IsFile []),
     (''/t/d'', plain_node IsDir []),
     (''/t/d/b'', (plain_node IsFile [])\<lparr>n_xattrs := [(KEY_TOOL, ''Edit'')]\<rparr>)]\<rparr>"

lemma find_mem_dirs:
  "os_read_dir mem_os ''/t'' find_mem =
     Inr [Inr \<lparr>de_name = ''a'', de_type = Inr IsFile\<rparr>, Inr \<lparr>de_name = ''d'', de_type = Inr IsDir\<rparr>]"
  "os_read_dir mem_os ''/t/d'' find_mem = Inr [Inr \<lparr>de_name = ''b'', de_type = Inr IsFile\<rparr>]"
  "os_read_dir mem_os ''/n'' find_mem = Inl (Os ENOENT)"
  by (simp_all add: mem_os_def mem_node_def find_mem_def mem_files_def mem_children_def plain_node_def)

theorem find_prints_exactly_the_matches_witness:
  "(\<exists>errs ms r. cmd_find mem_os demo_chrono ''/t'' demo_query False find_mem =
      Some (map (\<lambda>(p, e). ErrPath p e) errs @ find_output False ms, SUCCESS) \<and>
      (''/t/d/b'', r) \<in> set ms \<and> r_tool r = Some ''Edit'' \<and> (\<forall>r. (''/t/a'', r) \<notin> set ms)) \<and>
   (\<exists>errs. cmd_find mem_os demo_chrono ''/n'' demo_query False find_mem =
      Some (map (\<lambda>(p, e). ErrPath p e) errs, FAILURE) \<and> (''/n'', Os ENOENT) \<in> set errs)"
proof
  have c: "find_cutoff mem_os find_mem (fq_since demo_query) = Inr None"
    by (simp add: find_cutoff_def demo_query_def)
  have d: "depth_below mem_os find_mem 2 ''/t''"
    by (simp add: numeral_2_eq_2 find_mem_dirs subdirs_def List.map_filter_def path_join_def has_root_def)
  have "file_below mem_os find_mem ''/t/d'' ''/t/d/b''"
    using file_below.here [OF find_mem_dirs(2)] by (simp add: path_join_def has_root_def)
  then have b: "file_below mem_os find_mem ''/t'' ''/t/d/b''"
    using file_below.deeper [OF find_mem_dirs(1), of "\<lparr>de_name = ''d'', de_type = Inr IsDir\<rparr>"]
    by (simp add: path_join_def has_root_def)
  have r: "read_record mem_os ''/t/d/b'' find_mem = Inr \<lparr>r_session = None, r_tool = Some ''Edit'', r_turn = None,
      r_intent = None, r_ts = None, r_history = None\<rparr>" (is "_ = Inr ?r")
  proof -
    have "utf8_lossy ''Edit'' = ''Edit''" by code_simp
    then show ?thesis
      by (simp add: read_record_def get_key_def mem_os_def mem_node_def find_mem_def mem_files_def plain_node_def)
  qed
  have a: "read_record mem_os ''/t/a'' find_mem = Inr \<lparr>r_session = None, r_tool = None, r_turn = None,
      r_intent = None, r_ts = None, r_history = None\<rparr>"
    by (simp add: read_record_def get_key_def mem_os_def mem_node_def find_mem_def mem_files_def plain_node_def)
  have m: "find_match demo_chrono demo_query None ?r" by (simp add: find_match_def record_is_empty_def demo_query_def)
  obtain errs ms where out: "cmd_find mem_os demo_chrono ''/t'' demo_query False find_mem =
      Some (map (\<lambda>(p, e). ErrPath p e) errs @ find_output False ms,
        if errs \<noteq> [] \<and> ms = [] then FAILURE else SUCCESS)"
    and ms: "\<forall>f r. (f, r) \<in> set ms \<longleftrightarrow> file_below mem_os find_mem ''/t'' f \<and>
      read_record mem_os f find_mem = Inr r \<and> find_match demo_chrono demo_query None r"
    using find_prints_exactly_the_matches [OF d c, of demo_chrono False] by blast
  have in_ms: "(''/t/d/b'', ?r) \<in> set ms" using ms b r m by blast
  have "(''/t/a'', r') \<notin> set ms" for r'
    using ms a by (auto simp: find_match_def record_is_empty_def)
  moreover have "ms \<noteq> []" using in_ms by auto
  then have "(if errs \<noteq> [] \<and> ms = [] then FAILURE else SUCCESS) = SUCCESS" by simp
  ultimately show "\<exists>errs ms r. cmd_find mem_os demo_chrono ''/t'' demo_query False find_mem =
      Some (map (\<lambda>(p, e). ErrPath p e) errs @ find_output False ms, SUCCESS) \<and>
      (''/t/d/b'', r) \<in> set ms \<and> r_tool r = Some ''Edit'' \<and> (\<forall>r. (''/t/a'', r) \<notin> set ms)"
    using out in_ms by (intro exI [of _ errs] exI [of _ ms] exI [of _ ?r]) simp
next
  have c: "find_cutoff mem_os find_mem (fq_since demo_query) = Inr None"
    by (simp add: find_cutoff_def demo_query_def)
  have d: "depth_below mem_os find_mem 1 ''/n''" by (simp add: find_mem_dirs)
  have un: "unreadable mem_os find_mem ''/n'' ''/n'' (Os ENOENT)" by (rule unreadable.dir_fails [OF find_mem_dirs(3)])
  have none: "\<not> file_below mem_os find_mem ''/n'' f" for f
    by (auto elim: file_below.cases simp: find_mem_dirs(3))
  obtain errs ms where out: "cmd_find mem_os demo_chrono ''/n'' demo_query False find_mem =
      Some (map (\<lambda>(p, e). ErrPath p e) errs @ find_output False ms,
        if errs \<noteq> [] \<and> ms = [] then FAILURE else SUCCESS)"
    and errs: "\<forall>p e. (p, e) \<in> set errs \<longleftrightarrow> unreadable mem_os find_mem ''/n'' p e"
    and ms: "\<forall>f r. (f, r) \<in> set ms \<longleftrightarrow> file_below mem_os find_mem ''/n'' f \<and>
      read_record mem_os f find_mem = Inr r \<and> find_match demo_chrono demo_query None r"
    using find_prints_exactly_the_matches [OF d c, of demo_chrono False] by blast
  have in_errs: "(''/n'', Os ENOENT) \<in> set errs" using errs un by blast
  have "ms = []" using ms none by (cases ms) auto
  with out in_errs show "\<exists>errs. cmd_find mem_os demo_chrono ''/n'' demo_query False find_mem =
      Some (map (\<lambda>(p, e). ErrPath p e) errs, FAILURE) \<and> (''/n'', Os ENOENT) \<in> set errs"
    by (intro exI [of _ errs]) (auto simp: find_output_def)
qed

text \<open>
  The cut-off of \<^verbatim>\<open>--since\<close> never wraps: for every accepted duration, however large, and every
  clock that fits a signed 64-bit count of seconds, it is the exact difference between now and
  the duration, with the duration capped at the largest signed value, and a duration not longer
  than the clock gives a cut-off in the past but not before the epoch.
\<close>

theorem since_cutoff_exact:
  assumes "parse_duration s = Inr dur" and "uint (os_now_secs os w) \<le> i64_max"
  shows "find_cutoff os w (Some s) = Inr (Some (uint (os_now_secs os w) - min (uint dur) i64_max)) \<and>
    (uint dur \<le> uint (os_now_secs os w) \<longrightarrow>
       find_cutoff os w (Some s) = Inr (Some (uint (os_now_secs os w) - uint dur)) \<and>
       0 \<le> uint (os_now_secs os w) - uint dur)"
  using find_cutoff_Inr [OF assms] assms(2) by auto

theorem since_cutoff_exact_witness:
  "find_cutoff mem_os (mem_files []) (Some ''2h'') = Inr (Some 1779573600)"
proof -
  have "trim ''2h'' = ''2'' @ [CHR ''h'']" by code_simp
  then have "parse_duration ''2h'' = Inr 7200"
    using parse_duration_split [of "''2''" "''2h''" "CHR ''h''"]
    by (simp add: is_digit_def dec_val_def digit_val_def unit_secs_def u64_max_def)
  then show ?thesis
    using since_cutoff_exact [of "''2h''" 7200 mem_os "mem_files []"]
    by (simp add: mem_os_def mem_files_def i64_max_def)
qed

text \<open>
  C32. Absence is never a failure: on a path that can be read, each of \<^verbatim>\<open>show\<close>, \<^verbatim>\<open>who\<close>, \<^verbatim>\<open>when\<close> and \<^verbatim>\<open>chain\<close>
  exits successfully and prints nothing on standard error, and on a path without provenance each
  prints just the notice; on a path that cannot be read each prints one error and fails.
\<close>

definition path_command :: "prov_command \<Rightarrow> (path \<times> bool) option" where
  "path_command c =
     (case c of Show p js \<Rightarrow> Some (p, js) | Who p js \<Rightarrow> Some (p, js) | When p js \<Rightarrow> Some (p, js)
      | Chain p js \<Rightarrow> Some (p, js) | Find _ _ _ \<Rightarrow> None)"

fun is_stdout :: "out_line \<Rightarrow> bool" where
  "is_stdout (Line s) = True"
| "is_stdout (Json j) = True"
| "is_stdout (ErrPath p e) = False"
| "is_stdout (ErrSince e) = False"

theorem absence_is_not_failure:
  assumes "path_command c = Some (p, js)"
  shows "case read_record os p w of
      Inr r \<Rightarrow>
        (\<exists>lines. prov_main os ch c w = Some (lines, SUCCESS) \<and> list_all is_stdout lines) \<and>
        (record_is_empty r \<longrightarrow> prov_main os ch c w = Some (no_provenance js))
    | Inl e \<Rightarrow> prov_main os ch c w = Some ([ErrPath p e], FAILURE)"
proof (cases "read_record os p w")
  case (Inr r)
  have "list_all is_stdout (line_opt f x)" for f :: "str \<Rightarrow> str" and x
    by (simp add: line_opt_def split: option.splits)
  with Inr assms show ?thesis
    by (cases c) (auto simp: path_command_def cmd_defs no_provenance_def record_is_empty_def Let_def list_all_iff
        split: option.splits if_splits)
qed (use assms in \<open>cases c; simp add: path_command_def cmd_defs\<close>)

theorem absence_is_not_failure_witness:
  "prov_main mem_os demo_chrono (Who ''/f'' False) (mem_files [(''/f'', [])]) = Some ([Line ''no provenance''], SUCCESS)"
proof -
  have "read_record mem_os ''/f'' (mem_files [(''/f'', [])]) = Inr \<lparr>r_session = None, r_tool = None,
      r_turn = None, r_intent = None, r_ts = None, r_history = None\<rparr>"
    by (simp add: read_record_def get_key_def mem_os_def mem_node_def mem_files_def plain_node_def)
  then show ?thesis
    using absence_is_not_failure [of "Who ''/f'' False" "''/f''" False mem_os demo_chrono "mem_files [(''/f'', [])]"]
    by (simp add: path_command_def no_provenance_def record_is_empty_def)
qed

end
