(* ===== verification/Prov_Types.thy ===== *)
theory Prov_Types
  imports Prov_Cli
begin

text \<open>
  The types of the reader program. Rust's \<^verbatim>\<open>String\<close> holds valid UTF-8, and cutting one elsewhere than
  between two characters panics; in the model a string is a list of bytes. The predicates here are
  the type of each kind of value; the lemmas say that classification, history, durations and the
  commands stay within them, whatever bytes the attributes and the file names consist of, and that
  the text of every line the program writes is then valid UTF-8 (\<open>out_text\<close>).
\<close>

section \<open>Typing\<close>

definition opt_ok :: "str option \<Rightarrow> bool" where
  "opt_ok x \<longleftrightarrow> (case x of None \<Rightarrow> True | Some s \<Rightarrow> utf8_valid s)"

definition fields_ok :: "fallback_fields \<Rightarrow> bool" where
  "fields_ok f \<longleftrightarrow> opt_ok (comm_chain f) \<and> opt_ok (env_tag f) \<and> opt_ok (cwd f) \<and> opt_ok (pid_tag f) \<and>
     opt_ok (uid_tag f)"

fun kind_ok :: "session_kind \<Rightarrow> bool" where
  "kind_ok (AgentNs i) = utf8_valid i"
| "kind_ok (EnrichedFallback f) = fields_ok f"
| "kind_ok (LegacyFallback comm pid) = (utf8_valid comm \<and> utf8_valid pid)"
| "kind_ok (Opaque raw) = utf8_valid raw"

definition record_ok :: "prov_record \<Rightarrow> bool" where
  "record_ok r \<longleftrightarrow> opt_ok (r_session r) \<and> opt_ok (r_tool r) \<and> opt_ok (r_turn r) \<and> opt_ok (r_intent r) \<and>
     opt_ok (r_ts r) \<and> opt_ok (r_history r)"

fun json_ok :: "json \<Rightarrow> bool" where
  "json_ok JNull = True"
| "json_ok (JStr s) = utf8_valid s"
| "json_ok (JInt n) = True"
| "json_ok (JArr js) = list_all json_ok js"
| "json_ok (JObj kvs) = list_all (\<lambda>(k, v). utf8_valid k \<and> json_ok v) kvs"

fun duration_error_ok :: "duration_error \<Rightarrow> bool" where
  "duration_error_ok EmptyDuration = True"
| "duration_error_ok (MissingUnit s) = utf8_valid s"
| "duration_error_ok (MissingMagnitude s) = utf8_valid s"
| "duration_error_ok (InvalidMagnitude s) = utf8_valid s"
| "duration_error_ok (UnknownUnit s u) = (utf8_valid s \<and> utf8_valid u)"

fun line_ok :: "out_line \<Rightarrow> bool" where
  "line_ok (Line s) = utf8_valid s"
| "line_ok (Json j) = json_ok j"
| "line_ok (ErrPath p e) = utf8_valid (utf8_lossy p)"
| "line_ok (ErrSince e) = duration_error_ok e"

definition chrono_ok :: "chrono \<Rightarrow> bool" where
  "chrono_ok ch \<longleftrightarrow> (\<forall>n. utf8_valid (ch_format_local ch n))"

text \<open>
  The libraries print text: an error message whatever the error, a quoted string of a string, and
  JSON of a value whose strings are text.
\<close>

definition printers_ok :: "printers \<Rightarrow> bool" where
  "printers_ok pr \<longleftrightarrow> (\<forall>e. utf8_valid (pr_io pr e)) \<and> (\<forall>s. utf8_valid s \<longrightarrow> utf8_valid (pr_debug pr s)) \<and>
     (\<forall>j. json_ok j \<longrightarrow> utf8_valid (pr_json pr j))"

fun command_ok :: "prov_command \<Rightarrow> bool" where
  "command_ok (Find root q js) = opt_ok (fq_since q)"
| "command_ok _ = True"

lemma opt_ok_simps [simp]: "opt_ok None" "opt_ok (Some s) = utf8_valid s"
  by (simp_all add: opt_ok_def)

lemma opt_okD: "opt_ok x \<Longrightarrow> x = Some s \<Longrightarrow> utf8_valid s"
  by simp

section \<open>Strings\<close>

lemma utf8_valid_split_once:
  assumes "utf8_valid s" and "split_once (c # pat) s = Some (a, b)" and "ascii c" and "utf8_valid pat"
  shows "utf8_valid a \<and> utf8_valid b"
proof -
  have "s = a @ c # pat @ b" using split_once_Some [OF assms(2)] by simp
  with assms(1,3) have "utf8_valid a" "utf8_valid (pat @ b)" by (auto simp: utf8_valid_split_char)
  with assms(4) show ?thesis by (blast intro: utf8_valid_tail)
qed

lemma utf8_valid_strip_prefix:
  assumes "utf8_valid s" and "strip_prefix_str pat s = Some r" and "utf8_valid pat"
  shows "utf8_valid r"
  using assms by (auto simp: strip_prefix_str_def prefix_def split: if_splits intro: utf8_valid_tail)

section \<open>Sessions\<close>

lemma fallback_segment_ok:
  assumes "fields_ok f" and "utf8_valid seg"
  shows "fields_ok (fallback_segment f seg)"
proof -
  have "utf8_valid v" if "split_once '':'' seg = Some (k, v)" for k v
    using utf8_valid_split_once [OF assms(2) that] by simp
  with assms(1) show ?thesis
    by (auto simp: fallback_segment_def fields_ok_def split: option.splits)
qed

lemma parse_enriched_ok: "utf8_valid s \<Longrightarrow> fields_ok (parse_enriched_fallback s)"
proof -
  assume s: "utf8_valid s"
  have "fields_ok (foldl fallback_segment f segs)" if "fields_ok f" "\<forall>x \<in> set segs. utf8_valid x" for f segs
    using that by (induction segs arbitrary: f) (auto intro: fallback_segment_ok)
  then show ?thesis
    using utf8_valid_split [OF _ s, of "CHR '';''"] unfolding parse_enriched_fallback_def
    by (simp add: fields_ok_def no_fields_def)
qed

lemma parse_legacy_ok:
  assumes "utf8_valid s" and "parse_legacy_fallback s = Some (name, pid)"
  shows "utf8_valid name \<and> utf8_valid pid"
proof -
  have pats: "utf8_valid ''comm:''" "utf8_valid ''pid:''" by code_simp+
  from assms(2) obtain rest where rest: "strip_prefix_str ''comm:'' s = Some rest"
      "split_once '':pid:'' rest = Some (name, pid)"
    by (auto simp: parse_legacy_fallback_def split: option.splits if_splits)
  show ?thesis
    using utf8_valid_split_once [OF utf8_valid_strip_prefix [OF assms(1) rest(1) pats(1)] rest(2)] pats(2) by simp
qed

lemma classify_ok: "utf8_valid s \<Longrightarrow> kind_ok (classify s)"
  by (auto simp: classify_def parse_enriched_ok dest: parse_legacy_ok split: option.splits)

lemma fallback_human_ok: "fields_ok f \<Longrightarrow> utf8_valid (fallback_human f)"
  unfolding fallback_human_def fields_ok_def Let_def unwrap_or_def
  by (auto simp: ascii_def split: option.splits intro!: utf8_valid_append)

lemma kind_human_ok: "kind_ok k \<Longrightarrow> utf8_valid (session_kind_human k)"
  by (cases k) (auto simp: ascii_def fallback_human_ok intro!: utf8_valid_append)

lemma json_opt_ok: "opt_ok x \<Longrightarrow> json_ok (json_opt JStr x)"
  by (cases x) (simp_all add: json_opt_def)

lemma kind_json_ok: "kind_ok k \<Longrightarrow> json_ok (session_kind_json k)"
  by (cases k) (auto simp: ascii_def fields_ok_def intro!: json_opt_ok)

section \<open>Reading\<close>

lemma get_key_ok: "get_key os p key w = Inr x \<Longrightarrow> opt_ok x"
  by (auto simp: get_key_def valid_utf8_lossy split: sum.splits option.splits if_splits)

lemma read_record_ok: "read_record os p w = Inr r \<Longrightarrow> record_ok r"
  by (auto simp: read_record_Inr record_ok_def dest: get_key_ok)

lemma parse_history_ok:
  assumes "utf8_valid h" and "s \<in> set (parse_history h)"
  shows "utf8_valid s"
proof -
  obtain x where "x \<in> set (split_on CHR '','' h)" "s = trim x"
    using assms(2) by (auto simp: parse_history_def entries_def dest!: in_set_takeD)
  then show ?thesis using utf8_valid_split [OF _ assms(1), of "CHR '',''" x] by (simp add: utf8_valid_trim)
qed

definition entry_ok :: "walk_entry \<Rightarrow> bool" where
  "entry_ok e \<longleftrightarrow> (\<forall>r. we_record e = Inr r \<longrightarrow> record_ok r)"

lemma own_entry_ok: "own_entry os w dir e = Some we \<Longrightarrow> entry_ok we"
  by (auto simp: own_entry_def entry_ok_def dest: read_record_ok split: sum.splits entry_type.splits)

lemma walk_entries_ok:
  assumes "list_all entry_ok out"
  shows "list_all entry_ok (snd (walk_entries os w dir ents stack out))"
  using assms by (auto simp: walk_entries_eq list_all_iff List.map_filter_def dest: own_entry_ok)

lemma walk_loop_ok:
  assumes "walk_loop os w stack out = Some ents" and "list_all entry_ok out"
  shows "list_all entry_ok ents"
proof -
  have "list_all entry_ok out \<longrightarrow> list_all entry_ok ents"
  proof (rule walk_loop.raw_induct [where P = "\<lambda>os w stack out ents. list_all entry_ok out \<longrightarrow> list_all entry_ok ents",
        OF _ assms(1)], goal_cases)
    case (1 walk os w stack out ents)
    then show ?case
    proof (cases stack)
      case (Cons dir rest)
      show ?thesis
      proof (cases "os_read_dir os dir w")
        case (Inl e)
        with 1(2) Cons have "walk os w rest (out @ [\<lparr>we_path = dir, we_record = Inl e\<rparr>]) = Some ents" by simp
        from 1(1) [OF this] show ?thesis by (simp add: entry_ok_def)
      next
        case (Inr es)
        obtain stack' out' where we: "walk_entries os w dir es rest out = (stack', out')" by force
        with 1(2) Cons Inr have "walk os w stack' out' = Some ents" by simp
        from 1(1) [OF this] show ?thesis using walk_entries_ok [of out os w dir es rest] we by simp
      qed
    qed simp
  qed
  with assms(2) show ?thesis by simp
qed

lemma parse_duration_ok:
  assumes "utf8_valid s" and "parse_duration s = Inl e"
  shows "duration_error_ok e"
proof -
  let ?t = "trim s"
  have t: "utf8_valid ?t" by (rule utf8_valid_trim [OF assms(1)])
  have "utf8_valid (takeWhile is_digit ?t)"
    by (intro ascii_valid) (auto simp: list_all_iff is_digit_def dest: set_takeWhileD)
  then have "utf8_valid (dropWhile is_digit ?t)"
    using t utf8_valid_tail [of "takeWhile is_digit ?t" "dropWhile is_digit ?t"] by simp
  with t assms(2) show ?thesis
    by (auto simp: parse_duration_def Let_def split: if_splits option.splits)
qed

section \<open>Printing\<close>

lemma load_record_ok:
  "load_record os p w = Inr r \<Longrightarrow> record_ok r"
  "load_record os p w = Inl (out, code) \<Longrightarrow> list_all line_ok out"
  by (auto simp: load_record_def valid_utf8_lossy dest: read_record_ok split: sum.splits)

lemma no_provenance_ok: "list_all line_ok (fst (no_provenance js))"
  by (simp add: no_provenance_def ascii_def)

lemma no_provenance_line: "x \<in> set (fst (no_provenance js)) \<Longrightarrow> line_ok x"
  using no_provenance_ok [of js] by (simp add: list_all_iff)

lemma ts_line_ok: "chrono_ok ch \<Longrightarrow> utf8_valid t \<Longrightarrow> utf8_valid (ts_human_line ch t)"
  unfolding ts_human_line_def Let_def
  by (auto simp: ascii_def ts_local_def render_local_def chrono_ok_def split: option.splits if_splits
      intro!: utf8_valid_append)

lemma ts_json_ok: "chrono_ok ch \<Longrightarrow> utf8_valid t \<Longrightarrow> json_ok (ts_json ch t)"
  by (auto simp: ts_json_def Let_def ascii_def json_opt_def ts_local_def render_local_def chrono_ok_def
      parse_ts_def split: option.splits if_splits)

lemma line_opt_ok:
  "opt_ok x \<Longrightarrow> (\<And>v. utf8_valid v \<Longrightarrow> utf8_valid (f v)) \<Longrightarrow> list_all line_ok (line_opt f x)"
  by (cases x) (simp_all add: line_opt_def)

lemma json_opt_gen_ok:
  "opt_ok x \<Longrightarrow> (\<And>v. utf8_valid v \<Longrightarrow> json_ok (f v)) \<Longrightarrow> json_ok (json_opt f x)"
  by (cases x) (simp_all add: json_opt_def)

lemma join_ok: "\<forall>x \<in> set xs. utf8_valid x \<Longrightarrow> utf8_valid sep \<Longrightarrow> utf8_valid (join_with sep xs)"
proof (induction xs)
  case (Cons x xs)
  then show ?case by (cases "xs = []") (auto simp: join_Cons intro!: utf8_valid_append)
qed simp

lemma cmd_show_ok:
  assumes "chrono_ok ch"
  shows "list_all line_ok (fst (cmd_show os ch p js w))"
proof (cases "load_record os p w")
  case (Inl res)
  then show ?thesis using load_record_ok(2) [of os p w "fst res" "snd res"] by (simp add: cmd_show_def)
next
  case (Inr r)
  have r: "record_ok r" by (rule load_record_ok(1) [OF Inr])
  show ?thesis
  proof (cases "record_is_empty r \<or> js")
    case True
    with Inr r assms show ?thesis
      by (auto simp: cmd_show_def no_provenance_line record_ok_def ascii_def list_all_iff classify_ok kind_json_ok
          ts_json_ok parse_history_ok intro!: json_opt_gen_ok)
  next
    case False
    with Inr r assms show ?thesis
      by (auto simp: cmd_show_def record_ok_def ascii_def valid_utf8_lossy classify_ok kind_human_ok
          ts_line_ok parse_history_ok
          intro!: line_opt_ok utf8_valid_append join_ok)
  qed
qed

lemma cmd_who_ok: "list_all line_ok (fst (cmd_who os p js w))"
  using load_record_ok(1) [of os p w] load_record_ok(2) [of os p w]
  by (auto simp: cmd_who_def Let_def no_provenance_ok record_ok_def kind_json_ok kind_human_ok classify_ok
      split: sum.splits option.splits)

lemma cmd_when_ok: "chrono_ok ch \<Longrightarrow> list_all line_ok (fst (cmd_when os ch p js w))"
  using load_record_ok(1) [of os p w] load_record_ok(2) [of os p w]
  by (auto simp: cmd_when_def no_provenance_ok record_ok_def ts_json_ok ts_line_ok
      split: sum.splits option.splits)

lemma json_insert_ok: "json_ok j \<Longrightarrow> utf8_valid k \<Longrightarrow> json_ok v \<Longrightarrow> json_ok (json_insert k v j)"
proof (cases j)
  case (JObj kvs)
  assume "json_ok j" and "utf8_valid k" and "json_ok v"
  moreover have "list_all P (AList.update k v kvs)" if "list_all P kvs" "P (k, v)" for P
    using that by (induction kvs) auto
  ultimately show ?thesis using JObj by (simp add: json_insert_def)
qed (auto simp: json_insert_def)

lemma cmd_chain_ok: "list_all line_ok (fst (cmd_chain os p js w))"
proof (cases "load_record os p w")
  case (Inl res)
  then show ?thesis using load_record_ok(2) [of os p w "fst res" "snd res"] by (simp add: cmd_chain_def)
next
  case (Inr r)
  have r: "record_ok r" by (rule load_record_ok(1) [OF Inr])
  show ?thesis
  proof (cases "r_history r")
    case None
    with Inr show ?thesis by (simp add: cmd_chain_def no_provenance_ok)
  next
    case (Some h)
    with r have ok: "s \<in> set (parse_history h) \<Longrightarrow> kind_ok (classify s) \<and> utf8_valid s" for s
      using parse_history_ok [of h s] classify_ok [of s] by (simp add: record_ok_def)
    have "utf8_valid (dec_str i @ '': '' @ session_kind_human (classify s))"
      if "(i, s) \<in> set (enumerate 0 (parse_history h))" for i s
      using that ok [of s] kind_human_ok [of "classify s"] in_set_enumerate_eq [of "(i, s)"]
      by (auto simp: ascii_def intro!: utf8_valid_append)
    moreover have "json_ok (json_insert ''raw'' (JStr s) (session_kind_json (classify s)))"
      if "s \<in> set (parse_history h)" for s
      using ok [OF that] by (intro json_insert_ok) (auto simp: kind_json_ok ascii_def)
    ultimately show ?thesis
      using Inr Some by (auto simp: cmd_chain_def Let_def no_provenance_line list_all_iff)
  qed
qed

lemma find_output_ok: "\<forall>(p, r) \<in> set ms. record_ok r \<Longrightarrow> list_all line_ok (find_output js ms)"
  unfolding find_output_def
  by (force simp: list_all_iff ascii_def valid_utf8_lossy record_ok_def tab_def unwrap_or_def
      intro!: json_opt_ok utf8_valid_append split: option.splits)

lemma cmd_find_ok:
  assumes "cmd_find os ch root q js w = Some res" and "opt_ok (fq_since q)"
  shows "list_all line_ok (fst res)"
proof (cases "find_cutoff os w (fq_since q)")
  case (Inl e)
  then have "duration_error_ok e"
    using assms(2) parse_duration_ok
    by (auto simp: find_cutoff_def Let_def split: option.splits sum.splits)
  with Inl assms(1) show ?thesis by (auto simp: cmd_find_def)
next
  case (Inr cutoff)
  then obtain ents where ents: "walk_files os root w = Some ents"
    using assms(1) by (auto simp: cmd_find_def split: option.splits)
  then have "list_all entry_ok ents" using walk_loop_ok unfolding walk_files_def by fastforce
  then have "\<forall>(p, r) \<in> set (walk_matches ch q cutoff ents). record_ok r"
    by (auto simp: set_walk_matches entry_ok_def list_all_iff)
  from find_output_ok [OF this, of js] show ?thesis
    using assms(1) Inr ents
    by (auto simp: cmd_find_def find_loop_eq list_all_iff error_lines_def valid_utf8_lossy)
qed

lemma prov_main_ok:
  assumes "chrono_ok ch" and "command_ok cmd" and "prov_main os ch cmd w = Some (out, code)"
  shows "list_all line_ok out"
proof (cases cmd)
  case (Show p js)
  with assms cmd_show_ok [OF assms(1), of os p js w] show ?thesis by simp
next
  case (Who p js)
  with assms cmd_who_ok [of os p js w] show ?thesis by simp
next
  case (When p js)
  with assms cmd_when_ok [OF assms(1), of os p js w] show ?thesis by simp
next
  case (Chain p js)
  with assms cmd_chain_ok [of os p js w] show ?thesis by simp
next
  case (Find root q js)
  with assms cmd_find_ok [of os ch root q js w] show ?thesis by simp
qed

lemma duration_text_ok: "printers_ok pr \<Longrightarrow> duration_error_ok e \<Longrightarrow> utf8_valid (duration_text pr e)"
  by (cases e) (auto simp: printers_ok_def ascii_def intro!: utf8_valid_append)

lemma out_text_ok: "printers_ok pr \<Longrightarrow> line_ok l \<Longrightarrow> utf8_valid (out_text pr l)"
  by (cases l)
    (auto simp: ascii_def duration_text_ok valid_utf8_lossy printers_ok_def intro!: utf8_valid_append)

section \<open>Properties\<close>

text \<open>
  C13. Every command of the program prints text: the text of every line it writes, on standard output
  and on standard error, is valid UTF-8, and so is every string inside a JSON value, for any bytes in
  the attributes, the file names and the directory entries; only the \<^verbatim>\<open>--since\<close> argument, which the
  argument parser makes a string, and what the libraries render (the calendar, messages of \<^verbatim>\<open>io::Error\<close>,
  quoting, JSON of text) are taken to be text already. So no value of the program is a string cut
  inside a character.
\<close>

theorem prov_prints_text:
  assumes "printers_ok pr" and "chrono_ok ch" and "command_ok cmd" and "prov_main os ch cmd w = Some (out, code)"
  shows "(\<forall>l \<in> set out. utf8_valid (out_text pr l)) \<and> (\<forall>j. Json j \<in> set out \<longrightarrow> json_ok j)"
proof -
  have ok: "line_ok l" if "l \<in> set out" for l
    using prov_main_ok [OF assms(2-4)] that by (simp add: list_all_iff)
  then have "\<forall>j. Json j \<in> set out \<longrightarrow> json_ok j" by (metis line_ok.simps(2))
  with ok out_text_ok [OF assms(1)] show ?thesis by blast
qed

definition demo_printers :: printers where
  "demo_printers = \<lparr>pr_io = (\<lambda>e. ''No such file or directory (os error 2)''), pr_debug = (\<lambda>s. ''\"'' @ s @ ''\"''),
     pr_json = (\<lambda>j. ''{}'')\<rparr>"

text \<open>The byte 255, which no UTF-8 text contains, as the name of a missing file and as a session.\<close>

definition byte_mem :: mem where
  "byte_mem = (mem_files [])\<lparr>m_nodes := [(''/f'', (plain_node IsFile [])\<lparr>n_xattrs := [(KEY_SESSION, [CHR 0xFF])]\<rparr>)]\<rparr>"

theorem prov_prints_text_witness:
  "(\<exists>l. prov_main mem_os demo_chrono (Who [CHR 0xFF] False) byte_mem = Some ([l], FAILURE) \<and>
      out_text demo_printers l = ''prov: '' @ replacement_char @ '': No such file or directory (os error 2)'' \<and>
      utf8_valid (out_text demo_printers l)) \<and>
   (\<exists>l. prov_main mem_os demo_chrono (Who ''/f'' False) byte_mem = Some ([l], SUCCESS) \<and>
      out_text demo_printers l = ''unrecognized: '' @ replacement_char \<and> utf8_valid (out_text demo_printers l))"
proof -
  let ?R = "replacement_char"
  have ch: "chrono_ok demo_chrono" by (auto simp: chrono_ok_def demo_chrono_def ascii_def)
  have pr: "printers_ok demo_printers"
    by (auto simp: printers_ok_def demo_printers_def ascii_def intro!: utf8_valid_append)
  have lossy: "utf8_lossy [CHR 0xFF] = ?R" by code_simp
  have opq: "classify ?R = Opaque ?R" by code_simp
  have e: "prov_main mem_os demo_chrono (Who [CHR 0xFF] False) byte_mem =
      Some ([ErrPath [CHR 0xFF] (Os ENOENT)], FAILURE)"
    by (simp add: cmd_defs read_record_def mem_os_def mem_node_def byte_mem_def mem_files_def bind_res_def)
  have r: "read_record mem_os ''/f'' byte_mem = Inr \<lparr>r_session = Some ?R, r_tool = None, r_turn = None,
      r_intent = None, r_ts = None, r_history = None\<rparr>"
    by (simp add: read_record_def get_key_def mem_os_def mem_node_def byte_mem_def mem_files_def plain_node_def lossy)
  then have l: "prov_main mem_os demo_chrono (Who ''/f'' False) byte_mem = Some ([Line (''unrecognized: '' @ ?R)], SUCCESS)"
    by (simp add: cmd_defs Let_def opq)
  have "utf8_valid (out_text demo_printers (ErrPath [CHR 0xFF] (Os ENOENT)))"
    using prov_prints_text [OF pr ch _ e] by simp
  moreover have "out_text demo_printers (ErrPath [CHR 0xFF] (Os ENOENT)) =
      ''prov: '' @ ?R @ '': No such file or directory (os error 2)''"
    by (simp add: lossy demo_printers_def)
  moreover have "utf8_valid (out_text demo_printers (Line (''unrecognized: '' @ ?R)))"
    using prov_prints_text [OF pr ch _ l] by simp
  ultimately show ?thesis using e l by simp
qed

end
