(* ===== verification/Lsm_Session.thy ===== *)
theory Lsm_Session
  imports Session
begin

text \<open>
  The identity the kernel module captures at \<^verbatim>\<open>file_release\<close>, \<^verbatim>\<open>lsm/provfs_lsm.c\<close>: the chain of process
  names, one scan of the writer's environment for four fields, the working directory, and the
  session string composed from them. A C string is its list of bytes without the terminating
  NUL; \<open>snprintf_at\<close> is \<^verbatim>\<open>snprintf\<close> into the rest of a buffer, which truncates, returns the length it
  would have needed, and leaves what it wrote. The task, its ancestors and its memory are the
  record \<open>task\<close>, whose optional fields are those that may be gone while the task exits.
\<close>

definition PROV_IDENT_MAX :: nat where "PROV_IDENT_MAX = 256"
definition PROV_TS_MAX :: nat where "PROV_TS_MAX = 24"
definition PROV_FIELD_MAX :: nat where "PROV_FIELD_MAX = 64"
definition PROV_CHAIN_MAX :: nat where "PROV_CHAIN_MAX = 128"
definition PROV_CHAIN_LEVELS :: nat where "PROV_CHAIN_LEVELS = 3"
definition PROV_ENV_KEY_MAX :: nat where "PROV_ENV_KEY_MAX = 24"
definition PROV_ENV_VAL_MAX :: nat where "PROV_ENV_VAL_MAX = 48"
definition PROV_ENV_SCAN_MAX :: nat where "PROV_ENV_SCAN_MAX = 4096"
definition PATH_MAX :: nat where "PATH_MAX = 4096"

text \<open>\<open>tk_ancestors\<close> are the parents, nearest first, each with its name and pid.\<close>

record task =
  tk_comm :: str
  tk_ancestors :: "(str \<times> u32) list"
  tk_tgid :: u32
  tk_uid :: u32
  tk_env :: "bytes option"
  tk_cwd :: "str option"
  tk_agent_ns :: "str option"

section \<open>Buffers\<close>

definition snprintf_at :: "nat \<Rightarrow> nat \<Rightarrow> str \<Rightarrow> str \<Rightarrow> str \<times> nat" where
  "snprintf_at buflen off s buf = (take off buf @ take (buflen - off - 1) s, length s)"

text \<open>\<^verbatim>\<open>scnprintf\<close> and \<^verbatim>\<open>strscpy\<close> into a whole buffer.\<close>

definition cut :: "nat \<Rightarrow> str \<Rightarrow> str" where
  "cut buflen s = take (buflen - 1) s"

section \<open>The chain of names\<close>

definition provfs_is_root_comm :: "str \<Rightarrow> bool" where
  "provfs_is_root_comm comm \<longleftrightarrow> comm = ''init'' \<or> comm = ''systemd'' \<or> comm = ''kthreadd''"

fun comm_chain_loop :: "nat \<Rightarrow> nat \<Rightarrow> str \<Rightarrow> (str \<times> u32) list \<Rightarrow> nat \<Rightarrow> str \<Rightarrow> nat \<times> str" where
  "comm_chain_loop buflen 0 comm parents off buf = (off, buf)"
| "comm_chain_loop buflen (Suc levels) comm parents off buf =
     (if provfs_is_root_comm comm then (off, buf)
      else let (buf', n) = snprintf_at buflen off ((if off = 0 then '''' else ''>'') @ comm) buf
           in if buflen - off \<le> n then (off, buf')
              else (case parents of
                      [] \<Rightarrow> (off + n, buf')
                    | (pcomm, ppid) # rest \<Rightarrow>
                        if ppid = 1 \<or> ppid = 0 then (off + n, buf')
                        else comm_chain_loop buflen levels pcomm rest (off + n) buf'))"

definition provfs_build_comm_chain :: "nat \<Rightarrow> task \<Rightarrow> nat \<times> str" where
  "provfs_build_comm_chain buflen tk =
     comm_chain_loop buflen PROV_CHAIN_LEVELS (tk_comm tk) (tk_ancestors tk) 0 ''''"

section \<open>The environment\<close>

definition provfs_env_keys :: "str list" where
  "provfs_env_keys = [''CLAUDE_TOOL='', ''AGORABUS_SID='', ''CLAUDE_SESSION_ID='']"

definition provfs_key_tool :: "str list" where "provfs_key_tool = [''CLAUDE_TOOL='']"
definition provfs_key_turn :: "str list" where "provfs_key_turn = [''CLAUDE_TURN='']"
definition provfs_key_intent :: "str list" where "provfs_key_intent = [''AGENTNS_INTENT='']"

record env_target =
  et_keys :: "str list"
  et_dest :: str
  et_destlen :: nat
  et_keep_prefix :: bool
  et_filled :: bool

text \<open>The innermost loop: the first key of a target that an entry matches.\<close>

fun match_keys :: "str list \<Rightarrow> str \<Rightarrow> (str \<times> str) option" where
  "match_keys [] entry = None"
| "match_keys (k # ks) entry =
     (if length entry \<le> length k \<or> \<not> prefix k entry then match_keys ks entry
      else Some (k, drop (length k) entry))"

definition env_test :: "str \<Rightarrow> env_target \<Rightarrow> env_target" where
  "env_test entry tgt =
     (if et_filled tgt then tgt
      else case match_keys (et_keys tgt) entry of
             None \<Rightarrow> tgt
           | Some (k, val) \<Rightarrow>
               tgt\<lparr>et_dest := cut (et_destlen tgt)
                      (if et_keep_prefix tgt
                       then take (PROV_ENV_KEY_MAX - 1) (butlast k) @ ''='' @ take PROV_ENV_VAL_MAX val
                       else val),
                   et_filled := True\<rparr>)"

text \<open>
  The walk over the NUL-separated entries of the part of the block that was read; like the code's
  \<^verbatim>\<open>while (i < got)\<close> it stops at the end, so a final NUL does not begin another entry.
\<close>

function scan_entries :: "bytes \<Rightarrow> env_target list \<Rightarrow> env_target list" where
  "scan_entries bs targets =
     (if bs = [] then targets
      else let entry = takeWhile (\<lambda>c. c \<noteq> CHR 0x00) bs
           in scan_entries (drop (length entry + 1) bs) (map (env_test entry) targets))"
  by pat_completeness auto

termination
  by (relation "measure (\<lambda>(bs, _). length bs)") auto

declare scan_entries.simps [simp del]

definition provfs_scan_env :: "task \<Rightarrow> env_target list \<Rightarrow> env_target list" where
  "provfs_scan_env tk targets =
     (case tk_env tk of None \<Rightarrow> targets | Some block \<Rightarrow> scan_entries (take PROV_ENV_SCAN_MAX block) targets)"

text \<open>The four results: the signal for the fallback, tool, turn, intent.\<close>

definition ENVSIG_MAX :: nat where
  "ENVSIG_MAX = PROV_ENV_KEY_MAX + PROV_ENV_VAL_MAX + 2"

definition env_targets :: "env_target list" where
  "env_targets =
     [\<lparr>et_keys = provfs_env_keys, et_dest = '''', et_destlen = ENVSIG_MAX, et_keep_prefix = True, et_filled = False\<rparr>,
      \<lparr>et_keys = provfs_key_tool, et_dest = '''', et_destlen = PROV_FIELD_MAX, et_keep_prefix = False, et_filled = False\<rparr>,
      \<lparr>et_keys = provfs_key_turn, et_dest = '''', et_destlen = PROV_FIELD_MAX, et_keep_prefix = False, et_filled = False\<rparr>,
      \<lparr>et_keys = provfs_key_intent, et_dest = '''', et_destlen = PROV_FIELD_MAX, et_keep_prefix = False, et_filled = False\<rparr>]"

definition provfs_scan_writer_env :: "task \<Rightarrow> str list" where
  "provfs_scan_writer_env tk = map et_dest (provfs_scan_env tk env_targets)"

section \<open>The session string\<close>

definition provfs_build_cwd :: "nat \<Rightarrow> task \<Rightarrow> str" where
  "provfs_build_cwd buflen tk = (case tk_cwd tk of None \<Rightarrow> '''' | Some p \<Rightarrow> cut buflen p)"

text \<open>One \<^verbatim>\<open>snprintf\<close> of a field, advancing the offset only if the field fitted.\<close>

definition append_field :: "nat \<Rightarrow> str \<Rightarrow> nat \<times> str \<Rightarrow> nat \<times> str" where
  "append_field buflen field st =
     (case st of (off, buf) \<Rightarrow>
        (let (buf', n) = snprintf_at buflen off ((if off = 0 then '''' else '';'') @ field) buf
         in if 0 < n \<and> n < buflen - off then (off + n, buf') else (off, buf')))"

definition provfs_build_fallback :: "nat \<Rightarrow> task \<Rightarrow> str \<Rightarrow> str" where
  "provfs_build_fallback buflen tk envsig =
     (let (chain_len, chain) = provfs_build_comm_chain PROV_CHAIN_MAX tk;
          st0 = (0, '''');
          st1 = (if 0 < chain_len then append_field buflen (''comm-chain:'' @ chain) st0 else st0);
          st2 = (if envsig \<noteq> [] then append_field buflen (''env:'' @ envsig) st1 else st1);
          cwd = provfs_build_cwd PATH_MAX tk;
          st3 = (if cwd \<noteq> [] then append_field buflen (''cwd:'' @ cwd) st2 else st2);
          st4 = append_field buflen (''pid:'' @ dec_str (unat (tk_tgid tk))) st3;
          st5 = append_field buflen (''uid:'' @ dec_str (unat (tk_uid tk))) st4
      in if snd st5 = []
         then fst (snprintf_at buflen 0
                (''pid:'' @ dec_str (unat (tk_tgid tk)) @ '';uid:'' @ dec_str (unat (tk_uid tk))) [])
         else snd st5)"

text \<open>The AgentNS id, when the task is in an agent namespace of its own, else the fallback.\<close>

definition provfs_build_session :: "nat \<Rightarrow> task \<Rightarrow> str \<Rightarrow> str" where
  "provfs_build_session buflen tk envsig =
     (case tk_agent_ns tk of
        Some sid \<Rightarrow> if sid \<noteq> [] then cut buflen sid else provfs_build_fallback buflen tk envsig
      | None \<Rightarrow> provfs_build_fallback buflen tk envsig)"

section \<open>The fields the kernel module means to write\<close>

definition kernel_fields :: "task \<Rightarrow> str \<Rightarrow> fallback_fields" where
  "kernel_fields tk envsig =
     \<lparr>comm_chain =
        (let (n, chain) = provfs_build_comm_chain PROV_CHAIN_MAX tk in if 0 < n then Some chain else None),
      env_tag = (if envsig \<noteq> [] then Some envsig else None),
      cwd = (let c = provfs_build_cwd PATH_MAX tk in if c \<noteq> [] then Some c else None),
      pid_tag = Some (dec_str (unat (tk_tgid tk))),
      uid_tag = Some (dec_str (unat (tk_uid tk)))\<rparr>"

definition append_fields :: "nat \<Rightarrow> str list \<Rightarrow> nat \<times> str \<Rightarrow> nat \<times> str" where
  "append_fields buflen fs st = foldl (\<lambda>st f. append_field buflen f st) st fs"

lemma append_fields_simps [simp]:
  "append_fields buflen [] st = st"
  "append_fields buflen (f # fs) st = append_fields buflen fs (append_field buflen f st)"
  by (simp_all add: append_fields_def)

lemma append_fields_append [simp]:
  "append_fields buflen (fs @ gs) st = append_fields buflen gs (append_fields buflen fs st)"
  by (simp add: append_fields_def)

lemma append_render_field:
  "append_fields buflen (render_field key (if c then Some v else None)) st =
     (if c then append_field buflen (key @ '':'' @ v) st else st)"
  "append_fields buflen (render_field key (Some v)) st = append_field buflen (key @ '':'' @ v) st"
  by (simp_all add: render_field_def)

lemma build_fallback_fields:
  assumes "snd (append_fields buflen (fallback_segs (kernel_fields tk envsig)) (0, [])) \<noteq> []"
  shows "provfs_build_fallback buflen tk envsig =
    snd (append_fields buflen (fallback_segs (kernel_fields tk envsig)) (0, []))"
  using assms unfolding provfs_build_fallback_def kernel_fields_def fallback_segs_def
  by (simp add: append_render_field Let_def case_prod_beta cong: if_cong split del: if_split)

section \<open>What appending leaves in the buffer\<close>

text \<open>
  The buffer holds the fields that fitted, joined, and possibly the beginning of one that did
  not; the offset is the length of the former.
\<close>

definition joined :: "nat \<Rightarrow> str list \<Rightarrow> str list \<Rightarrow> nat \<times> str \<Rightarrow> bool" where
  "joined buflen fs kept st \<longleftrightarrow>
     (\<exists>p. fst st = length (join_with '';'' kept) \<and> snd st = join_with '';'' (kept @ p) \<and>
       fst st < buflen \<and> length (snd st) < buflen \<and>
       (p = [] \<or> (\<exists>y. p = [y] \<and> (\<exists>x \<in> set fs. prefix y x))))"

lemma join_eq_Nil: "[] \<notin> set xs \<Longrightarrow> join_with sep xs = [] \<longleftrightarrow> xs = []"
  by (cases xs; cases "tl xs") (auto simp: join_Cons)

lemma take_join_append:
  "take (length (join_with '';'' kept)) (join_with '';'' (kept @ p)) = join_with '';'' kept"
  by (cases "kept = []"; cases "p = []") (simp_all add: join_append)

lemma joined_whole:
  "length (join_with '';'' kept) < buflen \<Longrightarrow>
     joined buflen fs kept (length (join_with '';'' kept), join_with '';'' kept)"
  by (auto simp: joined_def intro: exI [of _ "[]"])

lemma joined_append:
  assumes "joined buflen fs kept st" and "f \<in> set fs" and "[] \<notin> set kept" and "f \<noteq> []"
  shows "joined buflen fs kept (append_field buflen f st) \<or>
    joined buflen fs (kept @ [f]) (append_field buflen f st)"
proof -
  let ?J = "join_with '';'' kept" and ?sep = "if kept = [] then [] else '';''"
  obtain off buf where st: "st = (off, buf)" by (cases st)
  obtain p where p: "off = length ?J" "buf = join_with '';'' (kept @ p)" "off < buflen"
    using assms(1) by (auto simp: joined_def st)
  have off0: "off = 0 \<longleftrightarrow> kept = []" using join_eq_Nil [OF assms(3)] p(1) by auto
  have buf: "take off buf = ?J" using take_join_append [of kept p] p by simp
  have full: "?J @ ?sep @ f = join_with '';'' (kept @ [f])"
    by (cases "kept = []") (simp_all add: join_append)
  show ?thesis
  proof (cases "length (?sep @ f) < buflen - off")
    case True
    then have "append_field buflen f st = (off + length (?sep @ f), ?J @ ?sep @ f)"
      using assms(4) by (auto simp: append_field_def st snprintf_at_def buf off0 Let_def)
    moreover have "length (?J @ ?sep @ f) < buflen" using True p(1) by simp
    ultimately have "append_field buflen f st =
        (length (join_with '';'' (kept @ [f])), join_with '';'' (kept @ [f]))"
      and "length (join_with '';'' (kept @ [f])) < buflen"
      by (simp_all add: p(1) flip: full)
    then have "joined buflen fs (kept @ [f]) (append_field buflen f st)"
      by (simp add: joined_whole)
    then show ?thesis ..
  next
    case False
    let ?part = "take (buflen - off - 1) (?sep @ f)"
    have eq: "append_field buflen f st = (off, ?J @ ?part)"
      using False by (auto simp: append_field_def st snprintf_at_def buf off0 Let_def)
    have "\<exists>q. ?J @ ?part = join_with '';'' (kept @ q) \<and> (q = [] \<or> (\<exists>y. q = [y] \<and> prefix y f))"
    proof (cases "kept = [] \<or> buflen - off - 1 = 0")
      case True
      then show ?thesis
      proof (cases "kept = []")
        case True
        then show ?thesis
          by (intro exI [of _ "[take (buflen - off - 1) f]"]) (simp add: take_is_prefix)
      qed (use True in \<open>auto intro: exI [of _ "[]"]\<close>)
    next
      case False
      then have "?J @ ?part = join_with '';'' (kept @ [take (buflen - off - 2) f])"
        by (simp add: join_append take_Cons')
      then show ?thesis using take_is_prefix by blast
    qed
    then obtain q where q: "?J @ ?part = join_with '';'' (kept @ q)" "q = [] \<or> (\<exists>y. q = [y] \<and> prefix y f)"
      by blast
    have len: "length (join_with '';'' (kept @ q)) < buflen"
      unfolding q(1) [symmetric] using p(1,3) by auto
    have "joined buflen fs kept (append_field buflen f st)"
      unfolding joined_def eq q(1) using assms(2) p(1,3) q(2) len by (intro exI [of _ q]) auto
    then show ?thesis ..
  qed
qed

lemma joined_append_fields:
  assumes "joined buflen fs kept st" and "set gs \<subseteq> set fs" and "[] \<notin> set kept" and "[] \<notin> set fs"
  shows "\<exists>more. set more \<subseteq> set gs \<and> joined buflen fs (kept @ more) (append_fields buflen gs st)"
  using assms
proof (induction gs arbitrary: kept st)
  case (Cons g gs)
  have "joined buflen fs kept (append_field buflen g st) \<or> joined buflen fs (kept @ [g]) (append_field buflen g st)"
    using Cons.prems by (intro joined_append) auto
  then show ?case
  proof
    assume j: "joined buflen fs kept (append_field buflen g st)"
    obtain more where "set more \<subseteq> set gs" "joined buflen fs (kept @ more) (append_fields buflen (g # gs) st)"
      using Cons.IH [OF j _ Cons.prems(3,4)] Cons.prems(2) by auto
    then show ?thesis by (intro exI [of _ more]) auto
  next
    assume j: "joined buflen fs (kept @ [g]) (append_field buflen g st)"
    have ne: "[] \<notin> set (kept @ [g])" using Cons.prems by auto
    obtain more where "set more \<subseteq> set gs" "joined buflen fs (kept @ g # more) (append_fields buflen (g # gs) st)"
      using Cons.IH [OF j _ ne Cons.prems(4)] Cons.prems(2) by auto
    then show ?thesis by (intro exI [of _ "g # more"]) auto
  qed
qed (auto intro: exI [of _ "[]"])

text \<open>When everything fits, everything is there.\<close>

lemma join_length_mono: "length (join_with sep xs) \<le> length (join_with sep (xs @ ys))"
  by (cases "xs = []"; cases "ys = []") (simp_all add: join_append)

lemma append_fields_fit:
  assumes "length (join_with '';'' (kept @ gs)) < buflen" and "[] \<notin> set (kept @ gs)"
  shows "append_fields buflen gs (length (join_with '';'' kept), join_with '';'' kept) =
    (length (join_with '';'' (kept @ gs)), join_with '';'' (kept @ gs))"
  using assms
proof (induction gs arbitrary: kept)
  case (Cons g gs)
  have len: "length (join_with '';'' (kept @ [g])) < buflen"
    using Cons.prems(1) join_length_mono [of "'';''" "kept @ [g]" gs] by simp
  have "append_field buflen g (length (join_with '';'' kept), join_with '';'' kept) =
      (length (join_with '';'' (kept @ [g])), join_with '';'' (kept @ [g]))"
    using len Cons.prems(2) join_eq_Nil [of kept "'';''"]
    by (cases "kept = []") (auto simp: append_field_def snprintf_at_def join_append)
  with Cons.IH [of "kept @ [g]"] Cons.prems show ?case by simp
qed simp

section \<open>Reading the value back\<close>

lemma render_field_nonempty: "[] \<notin> set (render_field key ov)"
  by (simp add: render_field_def split: option.splits)

lemma fallback_segs_nonempty: "[] \<notin> set (fallback_segs f)"
  by (simp add: fallback_segs_def render_field_nonempty)

lemma build_fallback_whole:
  assumes "length (render_fallback (kernel_fields tk envsig)) < buflen"
  shows "provfs_build_fallback buflen tk envsig = render_fallback (kernel_fields tk envsig)"
proof -
  let ?fs = "fallback_segs (kernel_fields tk envsig)"
  have "append_fields buflen ?fs (0, []) = (length (render_fallback (kernel_fields tk envsig)), render_fallback (kernel_fields tk envsig))"
    using append_fields_fit [of "[]" ?fs buflen] assms fallback_segs_nonempty
    by (simp add: render_fallback_def)
  moreover have "?fs \<noteq> []" by (simp add: fallback_segs_def kernel_fields_def render_field_def)
  then have "render_fallback (kernel_fields tk envsig) \<noteq> []"
    using join_eq_Nil [OF fallback_segs_nonempty, of "'';''" "kernel_fields tk envsig"]
    by (simp add: render_fallback_def)
  ultimately show ?thesis using build_fallback_fields [of buflen tk envsig] by simp
qed

text \<open>The fields after the first one, and what they do to the parsed chain: nothing.\<close>

definition later_segs :: "fallback_fields \<Rightarrow> str list" where
  "later_segs f =
     render_field ''env'' (env_tag f) @ render_field ''cwd'' (cwd f) @
     render_field ''pid'' (pid_tag f) @ render_field ''uid'' (uid_tag f)"

lemma fallback_segs_chain:
  "comm_chain f = Some chain \<Longrightarrow> fallback_segs f = (''comm-chain:'' @ chain) # later_segs f"
  by (simp add: fallback_segs_def later_segs_def render_field_def)

lemma later_segment_chain:
  assumes "x \<in> set (later_segs f)" and "prefix y x"
  shows "comm_chain (fallback_segment g y) = comm_chain g"
proof -
  obtain key ov where x: "x \<in> set (render_field key ov)" and
    key: "key \<in> set [''env'', ''cwd'', ''pid'', ''uid'']"
    using assms(1) by (auto simp: later_segs_def)
  then have "CHR '':'' \<notin> set key" by auto
  from render_field_cut [OF x assms(2) this, of g] key show ?thesis
    by (auto simp: field_segments)
qed

lemma later_segments_chain:
  "\<forall>y \<in> set ys. \<exists>x \<in> set (later_segs f). prefix y x \<Longrightarrow>
     comm_chain (foldl fallback_segment g ys) = comm_chain g"
proof (induction ys arbitrary: g)
  case (Cons y ys)
  then show ?case using later_segment_chain [of _ f y g] by auto
qed simp

lemma build_fallback_cut:
  assumes ok: "fallback_ok (kernel_fields tk envsig)"
    and chain: "comm_chain (kernel_fields tk envsig) = Some chain"
    and fits: "length (''comm-chain:'' @ chain) < buflen"
  shows "\<exists>ys. split_on CHR '';'' (provfs_build_fallback buflen tk envsig) = (''comm-chain:'' @ chain) # ys \<and>
    (\<forall>y \<in> set ys. \<exists>x \<in> set (later_segs (kernel_fields tk envsig)). prefix y x) \<and>
    length (provfs_build_fallback buflen tk envsig) < buflen"
proof -
  let ?c = "''comm-chain:'' @ chain" and ?later = "later_segs (kernel_fields tk envsig)"
  let ?st = "append_fields buflen (fallback_segs (kernel_fields tk envsig)) (0, [])"
  have segs: "fallback_segs (kernel_fields tk envsig) = ?c # ?later" by (rule fallback_segs_chain [OF chain])
  have ne: "[] \<notin> set ?later" using fallback_segs_nonempty [of "kernel_fields tk envsig"] segs by simp
  have "append_field buflen ?c (0, []) = (length ?c, ?c)"
    using fits by (simp add: append_field_def snprintf_at_def)
  then have st: "?st = append_fields buflen ?later (length (join_with '';'' [?c]), join_with '';'' [?c])"
    unfolding segs by simp
  have "joined buflen ?later [?c] (length (join_with '';'' [?c]), join_with '';'' [?c])"
    using fits by (intro joined_whole) simp
  from joined_append_fields [OF this subset_refl _ ne] obtain more
    where more: "set more \<subseteq> set ?later" and "joined buflen ?later ([?c] @ more) ?st"
    unfolding st by auto
  then obtain p where buf: "snd ?st = join_with '';'' (([?c] @ more) @ p)"
      and len: "length (snd ?st) < buflen" and p: "p = [] \<or> (\<exists>y. p = [y] \<and> (\<exists>x \<in> set ?later. prefix y x))"
    unfolding joined_def by blast
  have pieces: "\<forall>y \<in> set (more @ p). \<exists>x \<in> set ?later. prefix y x"
    using more p by auto
  have sep: "CHR '';'' \<notin> set y" if "y \<in> set (?c # more @ p)" for y
  proof -
    from that have "y = ?c \<or> y \<in> set (more @ p)" by simp
    then have "\<exists>x \<in> set (fallback_segs (kernel_fields tk envsig)). prefix y x"
      unfolding segs using pieces by (elim disjE) auto
    then show ?thesis using fallback_segs_no_sep [OF ok] set_mono_prefix by blast
  qed
  have "snd ?st \<noteq> []" unfolding buf by (cases "more @ p") simp_all
  then have eq: "provfs_build_fallback buflen tk envsig = snd ?st" by (rule build_fallback_fields)
  have "split_on CHR '';'' (join_with '';'' (?c # more @ p)) = ?c # more @ p"
    using sep by (intro split_join) (simp_all del: append_Cons)
  with pieces len show ?thesis unfolding eq by (auto simp: buf)
qed

section \<open>Properties\<close>

text \<open>
  C17. From the kernel module to the reader. When the whole value fits the buffer, and no field
  contains the separator, the session the kernel module builds for a task outside every agent
  namespace is classified by the reader as the fallback with exactly the task's chain of names,
  environment signal, working directory, pid and uid.
\<close>

theorem kernel_session_read_exactly:
  assumes "tk_agent_ns tk = None" and "fallback_ok (kernel_fields tk envsig)"
    and "length (render_fallback (kernel_fields tk envsig)) < buflen"
  shows "classify (provfs_build_session buflen tk envsig) = EnrichedFallback (kernel_fields tk envsig)"
  using assms(1) enriched.dec_enc [OF assms(2)]
  by (simp add: provfs_build_session_def build_fallback_whole [OF assms(3)])

definition demo_task :: task where
  "demo_task = \<lparr>tk_comm = ''sed'', tk_ancestors = [(''make'', 41), (''bash'', 40), (''sshd'', 1)],
     tk_tgid = 42, tk_uid = 1000, tk_env = None, tk_cwd = Some ''/w'', tk_agent_ns = None\<rparr>"

lemma demo_task_fields:
  "kernel_fields demo_task ''CLAUDE_TOOL=Edit'' =
     \<lparr>comm_chain = Some ''sed>make>bash'', env_tag = Some ''CLAUDE_TOOL=Edit'', cwd = Some ''/w'',
      pid_tag = Some ''42'', uid_tag = Some ''1000''\<rparr>"
  by code_simp

theorem kernel_session_read_exactly_witness:
  "classify (provfs_build_session PROV_IDENT_MAX demo_task ''CLAUDE_TOOL=Edit'') =
     EnrichedFallback \<lparr>comm_chain = Some ''sed>make>bash'', env_tag = Some ''CLAUDE_TOOL=Edit'',
       cwd = Some ''/w'', pid_tag = Some ''42'', uid_tag = Some ''1000''\<rparr>"
proof -
  have 1: "tk_agent_ns demo_task = None" by (simp add: demo_task_def)
  have 2: "fallback_ok (kernel_fields demo_task ''CLAUDE_TOOL=Edit'')"
    by (simp add: demo_task_fields fallback_ok_def field_ok_def)
  have 3: "length (render_fallback (kernel_fields demo_task ''CLAUDE_TOOL=Edit'')) < PROV_IDENT_MAX"
    by (simp add: demo_task_fields render_fallback_def fallback_segs_def render_field_def PROV_IDENT_MAX_def)
  from kernel_session_read_exactly [OF 1 2 3] show ?thesis by (simp add: demo_task_fields)
qed

text \<open>
  C18. When the value does not fit, the buffer is never overrun, the chain of names survives
  whole, and everything else the reader extracts is missing or the beginning of the true field.
\<close>

theorem kernel_session_keeps_chain:
  assumes "tk_agent_ns tk = None" and "fallback_ok (kernel_fields tk envsig)"
    and "comm_chain (kernel_fields tk envsig) = Some chain"
    and "length (''comm-chain:'' @ chain) < buflen"
  shows "\<exists>g. classify (provfs_build_session buflen tk envsig) = EnrichedFallback g \<and>
    comm_chain g = Some chain \<and> fields_within g (kernel_fields tk envsig) \<and>
    length (provfs_build_session buflen tk envsig) < buflen"
proof -
  let ?f = "kernel_fields tk envsig" and ?s = "provfs_build_session buflen tk envsig"
  have s: "?s = provfs_build_fallback buflen tk envsig"
    using assms(1) by (simp add: provfs_build_session_def)
  obtain ys where ys: "split_on CHR '';'' ?s = (''comm-chain:'' @ chain) # ys"
    "\<forall>y \<in> set ys. \<exists>x \<in> set (later_segs ?f). prefix y x" and len: "length ?s < buflen"
    using build_fallback_cut [OF assms(2-4)] unfolding s by blast
  have "?s = join_with '';'' ((''comm-chain:'' @ chain) # ys)"
    using ys(1) join_split [of "CHR '';''" ?s] by simp
  then have pre: "prefix ''comm-chain:'' ?s" by (cases ys) simp_all
  then have "\<not> is_agentns_id ?s" by (intro not_id_if_comm) (auto simp: prefix_def)
  then have c: "classify ?s = EnrichedFallback (parse_enriched_fallback ?s)"
    using pre by (simp add: classify_def)
  let ?g0 = "fallback_segment no_fields (''comm-chain:'' @ chain)"
  have g: "parse_enriched_fallback ?s = foldl fallback_segment ?g0 ys"
    by (simp add: parse_enriched_fallback_def ys(1))
  have g0: "?g0 = no_fields\<lparr>comm_chain := Some chain\<rparr>" by (simp add: field_segments)
  have "comm_chain (parse_enriched_fallback ?s) = Some chain"
    unfolding g g0 using later_segments_chain [OF ys(2), of "no_fields\<lparr>comm_chain := Some chain\<rparr>"] by simp
  moreover have "fields_within ?g0 ?f"
    unfolding g0 using assms(3) by (simp add: fields_within_def no_fields_def opt_prefix_def)
  then have "fields_within (parse_enriched_fallback ?s) ?f"
    unfolding g using ys(2) by (intro fields_within_fold) (auto simp: fallback_segs_chain [OF assms(3)])
  ultimately show ?thesis using c len by blast
qed

theorem kernel_session_keeps_chain_witness:
  "\<exists>g. classify (provfs_build_session 40 demo_task ''CLAUDE_TOOL=Edit'') = EnrichedFallback g \<and>
     comm_chain g = Some ''sed>make>bash''"
proof -
  have 1: "tk_agent_ns demo_task = None" by (simp add: demo_task_def)
  have 2: "fallback_ok (kernel_fields demo_task ''CLAUDE_TOOL=Edit'')"
    by (simp add: demo_task_fields fallback_ok_def field_ok_def)
  have 3: "comm_chain (kernel_fields demo_task ''CLAUDE_TOOL=Edit'') = Some ''sed>make>bash''"
    by (simp add: demo_task_fields)
  from kernel_session_keeps_chain [OF 1 2 3, of 40] show ?thesis by auto
qed

lemma kernel_segs_ids:
  "fallback_segs (kernel_fields tk envsig) =
     fallback_segs ((kernel_fields tk envsig)\<lparr>pid_tag := None, uid_tag := None\<rparr>) @
     [''pid:'' @ dec_str (unat (tk_tgid tk)), ''uid:'' @ dec_str (unat (tk_uid tk))]"
  by (simp add: fallback_segs_def render_field_def kernel_fields_def)

lemma append_no_pid_then_uid:
  assumes "0 < n" and "n = length J" and "n + 5 < buflen" and "buflen \<le> n + 5 + length pid"
  shows "snd (append_fields buflen [''pid:'' @ pid, ''uid:'' @ uid] (n, J)) =
    J @ '';uid:'' @ take (buflen - n - 6) uid"
proof -
  let ?x = "take (buflen - n - 1) ('';pid:'' @ pid)"
  have "append_field buflen (''pid:'' @ pid) (n, J) = (n, J @ ?x)"
    using assms by (auto simp: append_field_def snprintf_at_def Let_def take_Cons')
  moreover have "take (buflen - n - 1) ('';uid:'' @ uid) = '';uid:'' @ take (buflen - n - 6) uid"
    using assms(3) by (simp add: take_Cons' eval_nat_numeral)
  then have "snd (append_field buflen (''uid:'' @ uid) (n, J @ ?x)) = J @ '';uid:'' @ take (buflen - n - 6) uid"
    using assms(1-3) by (auto simp: append_field_def snprintf_at_def Let_def take_Cons')
  ultimately show ?thesis by simp
qed

text \<open>
  C36. The uid is not always there. When the chain, signal and directory of a task leave room in the
  buffer for \<^verbatim>\<open>;uid:\<close> but not for the pid, the reader gets no pid, and as the uid what the buffer still
  had room for: the first \<open>buflen - n - 6\<close> digits, with nothing to tell that there were more. The
  chain, the signal and the directory are those of the task.
\<close>

theorem kernel_uid_cut_short:
  assumes "tk_agent_ns tk = None" and "f = kernel_fields tk envsig" and "fallback_ok f"
    and "comm_chain f = Some chain" and "n = length (render_fallback (f\<lparr>pid_tag := None, uid_tag := None\<rparr>))"
    and "n + 5 < buflen" and "buflen \<le> n + 5 + length (dec_str (unat (tk_tgid tk)))"
  shows "classify (provfs_build_session buflen tk envsig) =
    EnrichedFallback (f\<lparr>pid_tag := None, uid_tag := Some (take (buflen - n - 6) (dec_str (unat (tk_uid tk))))\<rparr>)"
proof -
  let ?b = "f\<lparr>pid_tag := None, uid_tag := None\<rparr>"
  let ?U = "take (buflen - n - 6) (dec_str (unat (tk_uid tk)))"
  let ?g = "f\<lparr>pid_tag := None, uid_tag := Some ?U\<rparr>"
  have J: "render_fallback ?b \<noteq> []" and segs: "fallback_segs ?b \<noteq> []"
    using join_eq_Nil [OF fallback_segs_nonempty, of "'';''" ?b] assms(4)
    by (simp_all add: render_fallback_def fallback_segs_def render_field_def)
  have "append_fields buflen (fallback_segs ?b) (0, []) = (n, render_fallback ?b)"
    using append_fields_fit [of "[]" "fallback_segs ?b" buflen] fallback_segs_nonempty [of ?b] assms(5,6)
    by (simp add: render_fallback_def)
  with append_no_pid_then_uid [OF _ assms(5-7)] J assms(5)
  have st: "snd (append_fields buflen (fallback_segs f) (0, [])) = render_fallback ?b @ '';uid:'' @ ?U"
    unfolding assms(2) kernel_segs_ids [of tk envsig] by simp
  moreover have "fallback_segs ?g = fallback_segs ?b @ [''uid:'' @ ?U]"
    by (simp add: fallback_segs_def render_field_def)
  then have "render_fallback ?g = render_fallback ?b @ '';uid:'' @ ?U"
    using segs by (simp add: render_fallback_def join_append)
  moreover have "fallback_ok ?g"
    using assms(2,3) by (auto simp: fallback_ok_def field_ok_def kernel_fields_def dest: in_set_takeD)
  ultimately show ?thesis
    using assms(1) build_fallback_fields [of buflen tk envsig] enriched.dec_enc [of ?g]
    by (simp add: provfs_build_session_def assms(2))
qed

definition deep_task :: task where
  "deep_task = \<lparr>tk_comm = ''bash'', tk_ancestors = [(''sshd'', 1)], tk_tgid = 4242, tk_uid = 1000,
     tk_env = None, tk_cwd = Some (CHR ''/'' # replicate 228 (CHR ''d'')), tk_agent_ns = None\<rparr>"

theorem kernel_uid_cut_short_witness:
  "classify (provfs_build_session PROV_IDENT_MAX deep_task []) =
     EnrichedFallback \<lparr>comm_chain = Some ''bash'', env_tag = None,
       cwd = Some (CHR ''/'' # replicate 228 (CHR ''d'')), pid_tag = None, uid_tag = Some ''1''\<rparr>"
proof -
  define D where "D = replicate 228 (CHR ''d'')"
  have D: "length D = 228" "CHR '';'' \<notin> set D" by (simp_all add: D_def)
  have chain: "provfs_build_comm_chain PROV_CHAIN_MAX deep_task = (4, ''bash'')" by code_simp
  have nums: "dec_str 4242 = ''4242''" "dec_str 1000 = ''1000''"
    by (simp_all add: dec_str.simps) code_simp+
  have cwd: "provfs_build_cwd PATH_MAX deep_task = CHR ''/'' # D"
    by (simp add: provfs_build_cwd_def deep_task_def cut_def PATH_MAX_def D_def)
  have f: "kernel_fields deep_task [] = \<lparr>comm_chain = Some ''bash'', env_tag = None, cwd = Some (CHR ''/'' # D),
      pid_tag = Some ''4242'', uid_tag = Some ''1000''\<rparr>"
    using chain cwd nums by (simp add: kernel_fields_def) (simp add: deep_task_def)
  have r: "render_fallback ((kernel_fields deep_task [])\<lparr>pid_tag := None, uid_tag := None\<rparr>) =
      ''comm-chain:bash;cwd:/'' @ D"
    by (simp add: f render_fallback_def fallback_segs_def render_field_def)
  have 1: "tk_agent_ns deep_task = None" and tags: "tk_tgid deep_task = 4242" "tk_uid deep_task = 1000"
    by (simp_all add: deep_task_def)
  have 2: "fallback_ok (kernel_fields deep_task [])" using D(2) by (simp add: f fallback_ok_def field_ok_def)
  have 3: "comm_chain (kernel_fields deep_task []) = Some ''bash''" by (simp add: f)
  have 4: "length (render_fallback ((kernel_fields deep_task [])\<lparr>pid_tag := None, uid_tag := None\<rparr>)) = 249"
    by (simp add: r D(1))
  from kernel_uid_cut_short [OF 1 refl 2 3 4 [symmetric], of PROV_IDENT_MAX] show ?thesis
    using nums by (simp add: tags PROV_IDENT_MAX_def f D_def)
qed

section \<open>The environment scan\<close>

definition kv_entry :: "str \<times> str \<Rightarrow> str" where
  "kv_entry kv = fst kv @ CHR ''='' # snd kv"

lemma scan_entries_render:
  "list_all env_ok env \<Longrightarrow>
     scan_entries (render_environ env) ts = fold (\<lambda>kv. map (env_test (kv_entry kv))) env ts"
proof (induction env arbitrary: ts)
  case Nil
  then show ?case by (subst scan_entries.simps) (simp add: render_environ_def)
next
  case (Cons kv env)
  obtain k v where kv: "kv = (k, v)" by (cases kv)
  let ?rest = "render_environ env"
  have r: "render_environ (kv # env) = kv_entry kv @ CHR 0x00 # ?rest"
    by (simp add: render_environ_def kv kv_entry_def)
  have "takeWhile (\<lambda>c. c \<noteq> CHR 0x00) (kv_entry kv @ CHR 0x00 # ?rest) = kv_entry kv"
    using Cons.prems by (subst takeWhile_append2) (auto simp: kv kv_entry_def env_ok_def)
  then have "scan_entries (render_environ (kv # env)) ts = scan_entries ?rest (map (env_test (kv_entry kv)) ts)"
    unfolding r by (subst scan_entries.simps) simp
  with Cons show ?case by simp
qed

lemma fold_map_targets: "fold (\<lambda>kv. map (env_test (kv_entry kv))) env ts = map (fold (\<lambda>kv. env_test (kv_entry kv)) env) ts"
  by (induction env arbitrary: ts) (simp_all add: comp_def)

text \<open>The first assignment of a variable to a value that is not empty.\<close>

definition first_value :: "(str \<times> str) list \<Rightarrow> str \<Rightarrow> str" where
  "first_value env key =
     (case find (\<lambda>(k, v). k = key \<and> v \<noteq> []) env of None \<Rightarrow> [] | Some (k, v) \<Rightarrow> v)"

lemma match_one_key:
  assumes "CHR ''='' \<notin> set key" and "CHR ''='' \<notin> set k"
  shows "match_keys [key @ ''=''] (kv_entry (k, v)) = (if k = key \<and> v \<noteq> [] then Some (key @ ''='', v) else None)"
proof -
  have "prefix (key @ ''='') (k @ CHR ''='' # v) \<longleftrightarrow> k = key"
  proof
    assume "prefix (key @ ''='') (k @ CHR ''='' # v)"
    then obtain r where "k @ CHR ''='' # v = key @ CHR ''='' # r" by (auto simp: prefix_def)
    with split_once_char [OF assms(2), of v] split_once_char [OF assms(1), of r] show "k = key"
      by (metis option.inject prod.inject)
  qed (simp add: prefix_def)
  then show ?thesis by (auto simp: kv_entry_def)
qed

lemma fold_filled: "et_filled t \<Longrightarrow> fold (\<lambda>kv. env_test (kv_entry kv)) env t = t"
  by (induction env) (simp_all add: env_test_def)

lemma fold_env_test:
  assumes "list_all env_ok env" and "et_keys t = [key @ ''='']" and "CHR ''='' \<notin> set key"
    and "\<not> et_keep_prefix t" and "\<not> et_filled t" and "et_dest t = []"
  shows "et_dest (fold (\<lambda>kv. env_test (kv_entry kv)) env t) = cut (et_destlen t) (first_value env key)"
  using assms(1)
proof (induction env)
  case Nil
  then show ?case using assms(6) by (simp add: first_value_def cut_def)
next
  case (Cons kv env)
  obtain k v where kv: "kv = (k, v)" by (cases kv)
  then have k: "CHR ''='' \<notin> set k" using Cons.prems by (simp add: env_ok_def)
  show ?case
  proof (cases "k = key \<and> v \<noteq> []")
    case True
    then have "et_filled (env_test (kv_entry kv) t)" "et_dest (env_test (kv_entry kv) t) = cut (et_destlen t) v"
      using assms(2,4,5) match_one_key [OF assms(3) k, of v] by (simp_all add: env_test_def kv)
    with True show ?thesis by (simp add: fold_filled first_value_def kv)
  next
    case False
    then have "env_test (kv_entry kv) t = t"
      using assms(2,5) match_one_key [OF assms(3) k, of v] by (auto simp: env_test_def kv)
    with False Cons show ?thesis by (auto simp: first_value_def kv)
  qed
qed

text \<open>
  C29. The three bare fields the kernel module stamps: for an environment that fits the scan, tool,
  turn and intent are the first non-empty assignments of \<^verbatim>\<open>CLAUDE_TOOL\<close>, \<^verbatim>\<open>CLAUDE_TURN\<close> and
  \<^verbatim>\<open>AGENTNS_INTENT\<close>, cut to 63 bytes, or empty when there is none. (The overlay takes the last
  assignment, and reads the intent from another variable.)
\<close>

theorem kernel_env_fields:
  assumes "tk_env tk = Some (render_environ env)" and "list_all env_ok env"
    and "length (render_environ env) \<le> PROV_ENV_SCAN_MAX"
  shows "tl (provfs_scan_writer_env tk) =
    map (\<lambda>key. cut PROV_FIELD_MAX (first_value env key)) [''CLAUDE_TOOL'', ''CLAUDE_TURN'', ''AGENTNS_INTENT'']"
proof -
  have dest: "et_dest (fold (\<lambda>kv. env_test (kv_entry kv)) env
      \<lparr>et_keys = [key @ ''=''], et_dest = [], et_destlen = n, et_keep_prefix = False, et_filled = False\<rparr>) =
      cut n (first_value env key)" if "CHR ''='' \<notin> set key" for key n
    using fold_env_test [OF assms(2) _ that, of "\<lparr>et_keys = [key @ ''=''], et_dest = [], et_destlen = n,
        et_keep_prefix = False, et_filled = False\<rparr>"] by simp
  have "provfs_scan_env tk env_targets = map (fold (\<lambda>kv. env_test (kv_entry kv)) env) env_targets"
    using assms by (simp add: provfs_scan_env_def scan_entries_render fold_map_targets)
  then show ?thesis
    using dest [of "''CLAUDE_TOOL''"] dest [of "''CLAUDE_TURN''"] dest [of "''AGENTNS_INTENT''"]
    by (simp add: provfs_scan_writer_env_def env_targets_def provfs_key_tool_def provfs_key_turn_def
        provfs_key_intent_def)
qed

theorem kernel_env_fields_witness:
  "tl (provfs_scan_writer_env (demo_task\<lparr>tk_env := Some (render_environ
      [(''CLAUDE_TOOL'', []), (''CLAUDE_TOOL'', ''Edit''), (''CLAUDE_TOOL'', ''Bash''), (''CLAUDE_TURN'', ''7'')])\<rparr>)) =
   [''Edit'', ''7'', []]"
proof -
  let ?env = "[(''CLAUDE_TOOL'', []), (''CLAUDE_TOOL'', ''Edit''), (''CLAUDE_TOOL'', ''Bash''), (''CLAUDE_TURN'', ''7'')]"
  have 1: "tk_env (demo_task\<lparr>tk_env := Some (render_environ ?env)\<rparr>) = Some (render_environ ?env)" by simp
  have 2: "list_all env_ok ?env" and 3: "length (render_environ ?env) \<le> PROV_ENV_SCAN_MAX"
    by code_simp+
  from kernel_env_fields [OF 1 2 3] show ?thesis
    by (simp add: first_value_def cut_def PROV_FIELD_MAX_def)
qed

section \<open>A writer without a chain\<close>

lemma root_comm_fields:
  "provfs_is_root_comm (tk_comm tk) \<Longrightarrow> comm_chain (kernel_fields tk envsig) = None"
  by (simp add: kernel_fields_def provfs_build_comm_chain_def PROV_CHAIN_LEVELS_def numeral_3_eq_3)

lemma classify_opaque:
  assumes "pre \<in> {''env:'', ''cwd:'', ''pid:''}" and "prefix pre s"
  shows "classify s = Opaque s"
proof -
  obtain r where s: "s = pre @ r" using assms(2) by (auto simp: prefix_def)
  with assms(1) have "\<not> is_agentns_id s" by (auto simp: is_agentns_id_def)
  moreover have "\<not> prefix ''comm-chain:'' s" "strip_prefix_str ''comm:'' s = None"
    using assms(1) s by (auto simp: strip_prefix_str_def)
  ultimately show ?thesis by (simp add: classify_def parse_legacy_fallback_def)
qed

text \<open>
  C35. A writer without a chain of names is not recognised. For \<^verbatim>\<open>systemd\<close>, \<^verbatim>\<open>init\<close> and \<^verbatim>\<open>kthreadd\<close>
  themselves the module leaves the chain out; the value then begins with another field, and the
  reader, which looks for the chain first, calls the whole value unrecognized and extracts none of
  the fields that are there.
\<close>

theorem kernel_session_of_root_comm:
  assumes "provfs_is_root_comm (tk_comm tk)" and "tk_agent_ns tk = None"
    and "length (render_fallback (kernel_fields tk envsig)) < buflen"
  shows "provfs_build_session buflen tk envsig = render_fallback (kernel_fields tk envsig) \<and>
    classify (provfs_build_session buflen tk envsig) = Opaque (render_fallback (kernel_fields tk envsig))"
proof -
  let ?f = "kernel_fields tk envsig"
  have s: "provfs_build_session buflen tk envsig = render_fallback ?f"
    using assms(2) build_fallback_whole [OF assms(3)] by (simp add: provfs_build_session_def)
  have "\<exists>pre \<in> {''env:'', ''cwd:'', ''pid:''}. prefix pre (hd (fallback_segs ?f))" "fallback_segs ?f \<noteq> []"
    using root_comm_fields [OF assms(1), of envsig]
    by (auto simp: fallback_segs_def render_field_def kernel_fields_def Let_def split: option.splits)
  then have "\<exists>pre \<in> {''env:'', ''cwd:'', ''pid:''}. prefix pre (render_fallback ?f)"
    unfolding render_fallback_def by (cases "fallback_segs ?f"; cases "tl (fallback_segs ?f)") (auto intro: prefix_prefix)
  then show ?thesis using s classify_opaque by auto
qed

theorem kernel_session_of_root_comm_witness:
  "classify (provfs_build_session PROV_IDENT_MAX
      (demo_task\<lparr>tk_comm := ''systemd'', tk_ancestors := [], tk_cwd := Some ''/'', tk_tgid := 1, tk_uid := 0\<rparr>) []) =
     Opaque ''cwd:/;pid:1;uid:0''"
proof -
  let ?tk = "demo_task\<lparr>tk_comm := ''systemd'', tk_ancestors := [], tk_cwd := Some ''/'', tk_tgid := 1, tk_uid := 0\<rparr>"
  have 1: "provfs_is_root_comm (tk_comm ?tk)" "tk_agent_ns ?tk = None"
    by (simp_all add: provfs_is_root_comm_def demo_task_def)
  have r: "render_fallback (kernel_fields ?tk []) = ''cwd:/;pid:1;uid:0''" by code_simp
  have 2: "length (render_fallback (kernel_fields ?tk [])) < PROV_IDENT_MAX" by (simp add: r PROV_IDENT_MAX_def)
  from kernel_session_of_root_comm [OF 1 2] show ?thesis unfolding r by (rule conjunct2)
qed

end
