(* ===== verification/Skip.thy ===== *)
theory Skip
  imports Unix_Path
begin

text \<open>
  \<^verbatim>\<open>src/skip.rs\<close>: the prefix list of paths that are not stamped. The interface \<open>skip_matcher\<close> is what
  a list of skip patterns promises its clients: the patterns act independently and an empty list
  skips nothing. The main result relates the string matching of the code to directory names: a
  pattern \<^verbatim>\<open>d/\<close> matches exactly the paths that lie below a directory called \<^verbatim>\<open>d\<close>, at any depth.
\<close>

record skip_list =
  prefixes :: "str list"

definition DEFAULT_SKIP_PREFIXES :: "str list" where
  "DEFAULT_SKIP_PREFIXES =
     [''.git/'', ''.git/objects/'', ''node_modules/'', ''target/'', ''.cache/'', ''.venv/'', ''venv/'',
      ''__pycache__/'', ''.pytest_cache/'', ''.mypy_cache/'', ''.ruff_cache/'', ''dist/'', ''build/'']"

definition skip_defaults :: skip_list where
  "skip_defaults = \<lparr>prefixes = DEFAULT_SKIP_PREFIXES\<rparr>"

definition skip_push :: "skip_list \<Rightarrow> str \<Rightarrow> skip_list" where
  "skip_push s raw =
     (let p = trim raw in if p = [] then s else s\<lparr>prefixes := prefixes s @ [p]\<rparr>)"

definition from_user_spec :: "str \<Rightarrow> skip_list" where
  "from_user_spec extra = foldl skip_push skip_defaults (split_on CHR '','' extra)"

definition skip_empty :: skip_list where
  "skip_empty = \<lparr>prefixes = []\<rparr>"

fun skip_loop :: "str list \<Rightarrow> str \<Rightarrow> bool" where
  "skip_loop [] s = False"
| "skip_loop (p # ps) s =
     (if prefix p s then True else if sublist (''/'' @ p) s then True else skip_loop ps s)"

definition should_skip :: "skip_list \<Rightarrow> path \<Rightarrow> bool" where
  "should_skip sl rel = skip_loop (prefixes sl) (utf8_lossy rel)"

section \<open>The interface\<close>

locale skip_matcher =
  fixes matches :: "'p list \<Rightarrow> 'a \<Rightarrow> bool"
  assumes matches_Nil: "\<not> matches [] x"
    and matches_Cons: "matches (p # ps) x \<longleftrightarrow> matches [p] x \<or> matches ps x"
begin

lemma matches_iff: "matches ps x \<longleftrightarrow> (\<exists>p \<in> set ps. matches [p] x)"
proof (induction ps)
  case (Cons p ps)
  then show ?case using matches_Cons [of p ps x] by simp
qed (simp add: matches_Nil)

lemma matches_append: "matches (ps @ qs) x \<longleftrightarrow> matches ps x \<or> matches qs x"
  unfolding matches_iff [of "ps @ qs"] matches_iff [of ps] matches_iff [of qs] by auto

lemma matches_mono: "set ps \<subseteq> set qs \<Longrightarrow> matches ps x \<Longrightarrow> matches qs x"
  using matches_iff [of ps x] matches_iff [of qs x] by blast

end

interpretation overlay_skip: skip_matcher skip_loop
  by unfold_locales auto

section \<open>Directory names\<close>

lemma prefix_sep:
  "c \<notin> set d \<Longrightarrow> c \<notin> set n \<Longrightarrow> prefix (d @ c # x) (n @ c # y) \<longleftrightarrow> d = n \<and> prefix x y"
  by (induction d arbitrary: n; case_tac n) auto

lemma prefix_sep_free: "c \<notin> set n \<Longrightarrow> \<not> prefix (d @ c # x) n"
  by (auto simp: prefix_def)

lemma sublist_skip: "c \<notin> set n \<Longrightarrow> sublist (c # x) (n @ y) \<longleftrightarrow> sublist (c # x) y"
  by (induction n) (auto simp: sublist_Cons_right)

lemma prefix_dirs:
  assumes "names \<noteq> []" and "\<forall>n \<in> set names. CHR ''/'' \<notin> set n"
    and "ds \<noteq> []" and "\<forall>d \<in> set ds. CHR ''/'' \<notin> set d"
  shows "prefix (join_with ''/'' ds @ ''/'') (join_with ''/'' names) \<longleftrightarrow> prefix ds (butlast names)"
  using assms
proof (induction ds arbitrary: names)
  case (Cons d ds)
  obtain n ns where names: "names = n # ns" using Cons.prems(1) by (cases names) auto
  show ?case
  proof (cases "ns = []")
    case True
    with Cons.prems(2) names show ?thesis
      using prefix_sep_free [of "CHR ''/''" n] by (cases "ds = []") (auto simp: join_Cons)
  next
    case False
    with Cons names show ?thesis
      by (cases "ds = []") (auto simp: join_Cons prefix_sep)
  qed
qed simp

text \<open>
  The string \<^verbatim>\<open>/d1/.../dk/\<close> occurs in an absolute path exactly when \<open>d1, ..., dk\<close> are consecutive
  names among its parent directories.
\<close>

lemma sublist_slash_dirs:
  assumes "names \<noteq> []" and "\<forall>n \<in> set names. CHR ''/'' \<notin> set n"
    and "ds \<noteq> []" and "\<forall>d \<in> set ds. CHR ''/'' \<notin> set d"
  shows "sublist (''/'' @ join_with ''/'' ds @ ''/'') (''/'' @ join_with ''/'' names) \<longleftrightarrow>
           sublist ds (butlast names)"
  using assms(1,2)
proof (induction names)
  case (Cons n names)
  let ?x = "join_with ''/'' ds @ ''/''"
  have pre: "prefix ?x (join_with ''/'' (n # names)) \<longleftrightarrow> prefix ds (butlast (n # names))"
    using prefix_dirs [OF Cons.prems assms(3,4)] .
  show ?case
  proof (cases "names = []")
    case True
    with pre Cons.prems sublist_skip [of "CHR ''/''" n ?x "[]"] show ?thesis
      by (auto simp: sublist_Cons_right)
  next
    case False
    with pre Cons sublist_skip [of "CHR ''/''" n ?x "''/'' @ join_with ''/'' names"] show ?thesis
      by (auto simp: join_Cons sublist_Cons_right)
  qed
qed simp

lemma sublist_singleton: "sublist [d] xs \<longleftrightarrow> d \<in> set xs"
  by (induction xs) (auto simp: sublist_Cons_right)

lemma sublist_slash_names:
  assumes "names \<noteq> []" and "\<forall>n \<in> set names. CHR ''/'' \<notin> set n" and "CHR ''/'' \<notin> set d"
  shows "sublist (''/'' @ d @ ''/'') (''/'' @ join_with ''/'' names) \<longleftrightarrow> d \<in> set (butlast names)"
  using sublist_slash_dirs [OF assms(1,2), of "[d]"] assms(3) by (simp add: sublist_singleton)

lemma skip_loop_dir:
  assumes "names \<noteq> []" and "\<forall>n \<in> set names. CHR ''/'' \<notin> set n" and "CHR ''/'' \<notin> set d"
  shows "skip_loop [d @ ''/''] (join_with ''/'' names) \<longleftrightarrow> d \<in> set (butlast names)"
  using sublist_slash_names [OF assms] by (auto simp: sublist_Cons_right)

text \<open>
  A matcher whose patterns can name a directory: both skip lists of the system are instances, over
  different patterns and different writings of a path.
\<close>

locale dir_matcher = skip_matcher matches for matches :: "'p list \<Rightarrow> 'a \<Rightarrow> bool" +
  fixes pat :: "str \<Rightarrow> 'p" and enc :: "str list \<Rightarrow> 'a"
  assumes matches_dir: "names \<noteq> [] \<Longrightarrow> list_all file_name names \<Longrightarrow> CHR ''/'' \<notin> set d \<Longrightarrow>
    matches [pat d] (enc names) \<longleftrightarrow> d \<in> set (butlast names)"
begin

lemma matches_dirs:
  assumes "names \<noteq> []" and "list_all file_name names" and "\<forall>d \<in> set ds. CHR ''/'' \<notin> set d"
  shows "matches (map pat ds) (enc names) \<longleftrightarrow> (\<exists>d \<in> set ds. d \<in> set (butlast names))"
  unfolding matches_iff [of "map pat ds"] using matches_dir [OF assms(1,2)] assms(3) by auto

end

interpretation overlay_dirs: dir_matcher skip_loop "\<lambda>d. d @ ''/''" "join_with ''/''"
  by unfold_locales (rule skip_loop_dir, auto simp: list_all_iff file_name_def)

definition default_dirs :: "str list" where
  "default_dirs =
     [''.git'', ''node_modules'', ''target'', ''.cache'', ''.venv'', ''venv'',
      ''__pycache__'', ''.pytest_cache'', ''.mypy_cache'', ''.ruff_cache'', ''dist'', ''build'']"

text \<open>\<^verbatim>\<open>.git/objects/\<close> adds nothing to \<^verbatim>\<open>.git/\<close>.\<close>

lemma skip_loop_extension:
  "skip_loop [p @ q] s \<Longrightarrow> skip_loop [p] s"
  by (auto split: if_splits dest: append_prefixD)
    (metis append.assoc append_Cons append_Nil prefixI prefix_imp_sublist sublist_order.order.trans)+

lemma skip_git_objects: "skip_loop [''.git/objects/''] s \<Longrightarrow> skip_loop [''.git'' @ ''/''] s"
  using skip_loop_extension [of "''.git/''" "''objects/''" s] by (simp only: append_Cons append_Nil)

lemma set_default_prefixes:
  "set DEFAULT_SKIP_PREFIXES = insert ''.git/objects/'' ((\<lambda>d. d @ ''/'') ` set default_dirs)"
  by code_simp

lemma skip_defaults_dirs:
  "skip_loop DEFAULT_SKIP_PREFIXES s \<longleftrightarrow> (\<exists>d \<in> set default_dirs. skip_loop [d @ ''/''] s)"
proof -
  have "''.git'' \<in> set default_dirs" by (simp add: default_dirs_def)
  then show ?thesis
    unfolding overlay_skip.matches_iff [of DEFAULT_SKIP_PREFIXES s] set_default_prefixes
    using skip_git_objects [of s] by blast
qed

definition user_prefixes :: "str \<Rightarrow> str list" where
  "user_prefixes extra = filter (\<lambda>p. p \<noteq> []) (map trim (split_on CHR '','' extra))"

lemma prefixes_from_user_spec:
  "prefixes (from_user_spec extra) = DEFAULT_SKIP_PREFIXES @ user_prefixes extra"
proof -
  have "prefixes (foldl skip_push sl segs) = prefixes sl @ filter (\<lambda>p. p \<noteq> []) (map trim segs)" for sl segs
    by (induction segs arbitrary: sl) (auto simp: skip_push_def Let_def)
  then show ?thesis by (simp add: from_user_spec_def user_prefixes_def skip_defaults_def)
qed


lemma utf8_lossy_names:
  "list_all utf8_valid names \<Longrightarrow> utf8_lossy (join_with ''/'' names) = join_with ''/'' names"
  by (simp add: utf8_valid_join)

lemma skip_loop_dirs:
  assumes "names \<noteq> []" and "list_all file_name names" and "\<forall>d \<in> set ds. CHR ''/'' \<notin> set d"
  shows "(\<exists>d \<in> set ds. skip_loop [d @ ''/''] (join_with ''/'' names)) \<longleftrightarrow>
           (\<exists>d \<in> set ds. d \<in> set (butlast names))"
  using skip_loop_dir [OF assms(1)] assms(2,3) by (auto simp: list_all_iff file_name_def)

text \<open>A pattern of the user's list: one directory name, written with a trailing slash.\<close>

definition dir_pattern_ok :: "str \<Rightarrow> bool" where
  "dir_pattern_ok d \<longleftrightarrow> CHR ''/'' \<notin> set d \<and> CHR '','' \<notin> set d \<and> trimmed (d @ ''/'')"

lemma user_prefixes_dirs:
  assumes "list_all dir_pattern_ok ds"
  shows "user_prefixes (join_with '','' (map (\<lambda>d. d @ ''/'') ds)) = map (\<lambda>d. d @ ''/'') ds"
proof (cases "ds = []")
  case False
  let ?ps = "map (\<lambda>d. d @ ''/'') ds"
  have "split_on CHR '','' (join_with '','' ?ps) = ?ps"
    using False assms by (intro split_join) (auto simp: dir_pattern_ok_def list_all_iff)
  moreover have "map trim ?ps = ?ps"
    using assms by (auto simp: dir_pattern_ok_def list_all_iff)
  ultimately show ?thesis
    unfolding user_prefixes_def by (simp only: filter_map) (simp add: comp_def)
qed (simp add: user_prefixes_def)

section \<open>Properties\<close>

text \<open>
  With the default list, a path with components \<open>names\<close> relative to the mount source is
  skipped exactly when one of its parent directories, at any depth, is called \<^verbatim>\<open>.git\<close>,
  \<^verbatim>\<open>node_modules\<close>, \<^verbatim>\<open>target\<close>, and so on: a directory of that name itself is not skipped, and a name
  that merely begins or ends like one is not either.
\<close>

theorem should_skip_defaults_iff:
  assumes "names \<noteq> []" and "list_all file_name names" and "list_all utf8_valid names"
  shows "should_skip skip_defaults (join_with ''/'' names) \<longleftrightarrow>
           (\<exists>d \<in> set default_dirs. d \<in> set (butlast names))"
proof -
  have "\<forall>d \<in> set default_dirs. CHR ''/'' \<notin> set d" by code_simp
  with assms show ?thesis
    by (simp add: should_skip_def skip_defaults_def utf8_lossy_names skip_defaults_dirs skip_loop_dirs
        del: skip_loop.simps)
qed

theorem should_skip_defaults_iff_witness:
  "should_skip skip_defaults (join_with ''/'' [''repo'', ''.git'', ''HEAD'']) \<and>
   \<not> should_skip skip_defaults (join_with ''/'' [''repo'', ''target''])"
proof -
  have 1: "list_all file_name [''repo'', ''.git'', ''HEAD'']" "list_all utf8_valid [''repo'', ''.git'', ''HEAD'']"
    and 2: "list_all file_name [''repo'', ''target'']" "list_all utf8_valid [''repo'', ''target'']"
    by code_simp+
  show ?thesis
    using should_skip_defaults_iff [OF _ 1] should_skip_defaults_iff [OF _ 2]
    by (simp add: default_dirs_def)
qed

text \<open>
  C28. A user list of directory patterns extends the defaults and replaces none of them: with
  \<^verbatim>\<open>--skip d1/,d2/,...\<close> a path is skipped exactly when one of its parent directories is a default
  directory or one of the named ones.
\<close>

theorem from_user_spec_extends_defaults:
  assumes "list_all dir_pattern_ok ds"
    and "names \<noteq> []" and "list_all file_name names" and "list_all utf8_valid names"
  shows "should_skip (from_user_spec (join_with '','' (map (\<lambda>d. d @ ''/'') ds))) (join_with ''/'' names)
           \<longleftrightarrow> (\<exists>d \<in> set (default_dirs @ ds). d \<in> set (butlast names))"
proof -
  let ?extra = "join_with '','' (map (\<lambda>d. d @ ''/'') ds)" and ?rel = "join_with ''/'' names"
  have dirs: "\<forall>d \<in> set default_dirs. CHR ''/'' \<notin> set d" "\<forall>d \<in> set ds. CHR ''/'' \<notin> set d"
    using assms(1) by (code_simp, auto simp: dir_pattern_ok_def list_all_iff)
  have "skip_loop (user_prefixes ?extra) ?rel \<longleftrightarrow> (\<exists>d \<in> set ds. skip_loop [d @ ''/''] ?rel)"
    unfolding user_prefixes_dirs [OF assms(1)] overlay_dirs.matches_dirs [OF assms(2,3) dirs(2)]
      skip_loop_dirs [OF assms(2,3) dirs(2)] ..
  then show ?thesis
    using dirs assms(2-4)
    by (auto simp: should_skip_def prefixes_from_user_spec utf8_lossy_names overlay_skip.matches_append
        skip_defaults_dirs skip_loop_dirs simp del: skip_loop.simps)
qed

theorem from_user_spec_extends_defaults_witness:
  "should_skip (from_user_spec (join_with '','' (map (\<lambda>d. d @ ''/'') [''private'', ''logs''])))
     (join_with ''/'' [''a'', ''logs'', ''x''])"
proof -
  have 1: "list_all dir_pattern_ok [''private'', ''logs'']"
    and 2: "list_all file_name [''a'', ''logs'', ''x'']"
    and 3: "list_all utf8_valid [''a'', ''logs'', ''x'']"
    by code_simp+
  show ?thesis
    using from_user_spec_extends_defaults [OF 1 _ 2 3] by simp
qed

end
