(* ===== verification/Lsm_Work.thy ===== *)
theory Lsm_Work
  imports Lsm_Session Skip Reader
begin

text \<open>
  The sequential parts of the deferred stamping in \<^verbatim>\<open>lsm/provfs_work.c\<close> and the hook of
  \<^verbatim>\<open>lsm/provfs_lsm.c\<close> that feeds it: the skip list, a comma-separated buffer that a sysctl write
  replaces; the work item the hook makes; the attribute writes of the worker. A dentry is the path
  it stands for. The queue between the hook and the workers is in \<^verbatim>\<open>Lsm_Queue\<close>.
\<close>

section \<open>The skip list\<close>

definition PROVFS_SKIP_MAX :: nat where "PROVFS_SKIP_MAX = 1024"

definition PROVFS_SKIP_DEFAULT :: str where
  "PROVFS_SKIP_DEFAULT =
     ''/proc/,/sys/,/dev/,/run/,/tmp/,/var/run/,/var/cache/,/var/lib/pacman/,/.git/,/node_modules/,/target/,/.cargo/registry/''"

text \<open>The \<^verbatim>\<open>strsep\<close> loop over the tokens.\<close>

fun strsep_loop :: "str list \<Rightarrow> str \<Rightarrow> bool" where
  "strsep_loop [] p = False"
| "strsep_loop (tok # rest) p = (if tok \<noteq> [] \<and> sublist tok p then True else strsep_loop rest p)"

definition provfs_path_skipped :: "str \<Rightarrow> path option \<Rightarrow> bool" where
  "provfs_path_skipped buf p =
     (case p of
        None \<Rightarrow> True
      | Some p \<Rightarrow> (let local = cut PROVFS_SKIP_MAX buf in strsep_loop (split_on CHR '','' local) p))"

text \<open>
  A write to the sysctl: \<open>dostring\<close> is the kernel's \<^verbatim>\<open>proc_dostring\<close>, which stores what the user wrote
  in the staging buffer, or fails.
\<close>

definition provfs_sysctl_skip_prefixes :: "(str \<Rightarrow> str option) \<Rightarrow> bool \<Rightarrow> str \<Rightarrow> str" where
  "provfs_sysctl_skip_prefixes dostring wr buf =
     (let staging = cut PROVFS_SKIP_MAX buf
      in case dostring staging of
           None \<Rightarrow> buf
         | Some staging' \<Rightarrow> if wr then cut PROVFS_SKIP_MAX staging' else buf)"

interpretation kernel_skip: skip_matcher strsep_loop
  by unfold_locales auto

section \<open>Work items\<close>

record work =
  wk_dentry :: path
  wk_session :: str
  wk_ts :: str
  wk_tool :: str
  wk_turn :: str
  wk_intent :: str

text \<open>
  The attribute writes of \<^verbatim>\<open>provfs_stamp_worker\<close>, in their order; an empty optional field is not
  written. The results of the writes are ignored.
\<close>

definition stamp_writes :: "work \<Rightarrow> (str \<times> str) list" where
  "stamp_writes k =
     [(KEY_SESSION, wk_session k), (KEY_TS, wk_ts k)]
     @ (if wk_tool k \<noteq> [] then [(KEY_TOOL, wk_tool k)] else [])
     @ (if wk_turn k \<noteq> [] then [(KEY_TURN, wk_turn k)] else [])
     @ (if wk_intent k \<noteq> [] then [(KEY_INTENT, wk_intent k)] else [])"

fun write_all :: "'w os \<Rightarrow> path \<Rightarrow> (str \<times> str) list \<Rightarrow> 'w \<Rightarrow> 'w" where
  "write_all os p [] w = w"
| "write_all os p ((key, v) # kvs) w = write_all os p kvs (snd (os_xattr_set os p key v w))"

definition provfs_stamp_worker :: "'w os \<Rightarrow> work \<Rightarrow> 'w \<Rightarrow> 'w" where
  "provfs_stamp_worker os k w = write_all os (wk_dentry k) (stamp_writes k) w"

text \<open>The copies \<^verbatim>\<open>provfs_enqueue_stamp\<close> makes into a fresh item.\<close>

definition make_work :: "path \<Rightarrow> str \<Rightarrow> str \<Rightarrow> str \<Rightarrow> str \<Rightarrow> str \<Rightarrow> work" where
  "make_work dentry sess ts tool_v turn_v intent_v =
     \<lparr>wk_dentry = dentry, wk_session = cut PROV_IDENT_MAX sess, wk_ts = cut PROV_TS_MAX ts,
      wk_tool = cut PROV_FIELD_MAX tool_v, wk_turn = cut PROV_FIELD_MAX turn_v,
      wk_intent = cut PROV_FIELD_MAX intent_v\<rparr>"

text \<open>
  The hook: \<^verbatim>\<open>provfs_file_release\<close> and \<^verbatim>\<open>provfs_stamp\<close> up to the call that enqueues. \<open>None\<close> is a
  return without a stamp, \<open>Some\<close> gives the arguments of the call in the form of the item it copies them
  into; \<open>release_hook\<close>, with the queue, makes the call. \<open>abs_path\<close> is what \<^verbatim>\<open>d_absolute_path\<close> finds, which may fail.
\<close>

record release =
  rl_write :: bool
  rl_has_dentry :: bool
  rl_regular :: bool
  rl_dentry :: path
  rl_abs_path :: "path option"
  rl_seconds :: nat

definition provfs_stamp :: "str \<Rightarrow> task \<Rightarrow> release \<Rightarrow> work option" where
  "provfs_stamp skipbuf tk rl =
     (if \<not> rl_has_dentry rl then None
      else if \<not> rl_regular rl then None
      else case rl_abs_path rl of
             None \<Rightarrow> None
           | Some p \<Rightarrow>
               if provfs_path_skipped skipbuf (Some p) then None
               else (case provfs_scan_writer_env tk of
                       [envsig, tool_v, turn_v, intent_v] \<Rightarrow>
                         Some (make_work (rl_dentry rl) (provfs_build_session PROV_IDENT_MAX tk envsig)
                                (cut PROV_TS_MAX (dec_str (rl_seconds rl))) tool_v turn_v intent_v)
                     | _ \<Rightarrow> None))"

definition provfs_file_release :: "str \<Rightarrow> task \<Rightarrow> release \<Rightarrow> work option" where
  "provfs_file_release skipbuf tk rl = (if rl_write rl then provfs_stamp skipbuf tk rl else None)"

section \<open>What a worker writes\<close>

text \<open>
  \<open>P\<close> describes worlds in which setting an attribute of the path succeeds (the file exists and its
  file system has extended attributes), and stays so.
\<close>

definition settable :: "'w os \<Rightarrow> path \<Rightarrow> ('w \<Rightarrow> bool) \<Rightarrow> bool" where
  "settable os p P \<longleftrightarrow> (\<forall>w k v. P w \<longrightarrow> (\<exists>w'. os_xattr_set os p k v w = (Inr (), w') \<and> P w'))"

lemma write_one_attr:
  assumes "xattr_backend os p" and "settable os p P" and "P w"
  shows "attr os p (snd (os_xattr_set os p key v w)) = (attr os p w)(key := Inr (Some v)) \<and>
    P (snd (os_xattr_set os p key v w))"
proof -
  obtain w' where "os_xattr_set os p key v w = (Inr (), w')" "P w'"
    using assms(2,3) unfolding settable_def by blast
  with write_str_attr [OF assms(1), of key v w w'] show ?thesis by (simp add: write_str_def)
qed

lemma write_all_attr:
  assumes "xattr_backend os p" and "settable os p P" and "P w"
  shows "attr os p (write_all os p kvs w) = foldl (\<lambda>m (k, v). m(k := Inr (Some v))) (attr os p w) kvs \<and>
    P (write_all os p kvs w)"
  using assms(3)
proof (induction kvs arbitrary: w)
  case (Cons kv kvs)
  obtain key v where "kv = (key, v)" by (cases kv)
  with Cons.IH write_one_attr [OF assms(1,2) Cons.prems, of key v] show ?case by simp
qed simp

lemma worker_attr:
  assumes "xattr_backend os (wk_dentry k)" and "settable os (wk_dentry k) P" and "P w"
  shows "attr os (wk_dentry k) (provfs_stamp_worker os k w) KEY_SESSION = Inr (Some (wk_session k)) \<and>
    attr os (wk_dentry k) (provfs_stamp_worker os k w) KEY_TS = Inr (Some (wk_ts k))"
  using write_all_attr [OF assms, of "stamp_writes k"]
  by (simp add: provfs_stamp_worker_def stamp_writes_def)

text \<open>The item that a release outside every agent namespace makes.\<close>

lemma file_release_item:
  assumes "provfs_file_release buf tk rl = Some k" and "tk_agent_ns tk = None"
    and "length (render_fallback (kernel_fields tk (hd (provfs_scan_writer_env tk)))) < PROV_IDENT_MAX"
    and "rl_seconds rl < 10 ^ 19"
  shows "wk_dentry k = rl_dentry rl \<and> wk_ts k = dec_str (rl_seconds rl) \<and>
    wk_session k = render_fallback (kernel_fields tk (hd (provfs_scan_writer_env tk)))"
proof -
  have whole: "provfs_build_session PROV_IDENT_MAX tk (hd (provfs_scan_writer_env tk)) =
      render_fallback (kernel_fields tk (hd (provfs_scan_writer_env tk)))"
    using assms(2) build_fallback_whole [OF assms(3)] by (simp add: provfs_build_session_def)
  have ts: "cut PROV_TS_MAX (dec_str (rl_seconds rl)) = dec_str (rl_seconds rl)"
    using length_dec_str [of 19 "rl_seconds rl"] assms(4) by (simp add: cut_def PROV_TS_MAX_def)
  show ?thesis
    using assms(1,3) whole ts
    by (auto simp: provfs_file_release_def provfs_stamp_def make_work_def cut_def
        split: if_splits option.splits list.splits)
qed

text \<open>The hook makes an item exactly when every early return is passed.\<close>

lemma length_scan_entries: "length (scan_entries bs targets) = length targets"
  by (induction bs targets rule: scan_entries.induct) (subst scan_entries.simps, auto simp: Let_def)

lemma file_release_iff:
  "provfs_file_release buf tk rl \<noteq> None \<longleftrightarrow>
     rl_write rl \<and> rl_has_dentry rl \<and> rl_regular rl \<and> \<not> provfs_path_skipped buf (rl_abs_path rl)"
proof -
  have "length (provfs_scan_writer_env tk) = 4"
    by (simp add: provfs_scan_writer_env_def provfs_scan_env_def length_scan_entries env_targets_def split: option.split)
  then obtain a b c d where "provfs_scan_writer_env tk = [a, b, c, d]"
    by (auto simp: numeral_eq_Suc length_Suc_conv)
  then show ?thesis
    by (auto simp: provfs_file_release_def provfs_stamp_def provfs_path_skipped_def split: option.split)
qed

lemma mem_settable: "settable mem_os p (\<lambda>m. mem_node m p \<noteq> None)"
  by (auto simp: settable_def mem_os_def mem_on_def)

lemma mem_worker_node:
  "mem_node m (wk_dentry k) \<noteq> None \<Longrightarrow> mem_node (provfs_stamp_worker mem_os k m) (wk_dentry k) \<noteq> None"
  using write_all_attr [OF mem_xattr_backend mem_settable, of m "wk_dentry k" "stamp_writes k"]
  by (simp add: provfs_stamp_worker_def)

lemma mem_worker_keeps:
  "os_read_dir mem_os q (provfs_stamp_worker mem_os k m) = os_read_dir mem_os q m"
  "os_now_secs mem_os (provfs_stamp_worker mem_os k m) = os_now_secs mem_os m"
proof -
  have "os_read_dir mem_os q (write_all mem_os p kvs m) = os_read_dir mem_os q m \<and>
      os_now_secs mem_os (write_all mem_os p kvs m) = os_now_secs mem_os m" for p kvs
  proof (induction kvs arbitrary: m)
    case (Cons kv kvs)
    obtain key v where kv: "kv = (key, v)" by (cases kv)
    with Cons mem_set_keeps [of p key v m] show ?case by (metis prod.collapse write_all.simps(2))
  qed simp
  then show "os_read_dir mem_os q (provfs_stamp_worker mem_os k m) = os_read_dir mem_os q m"
    "os_now_secs mem_os (provfs_stamp_worker mem_os k m) = os_now_secs mem_os m"
    by (simp_all add: provfs_stamp_worker_def)
qed

section \<open>Which paths the kernel skips\<close>

text \<open>A skip buffer whose entries are runs of directory names: \<^verbatim>\<open>/var/cache/\<close> is two names.\<close>

definition dirs_ok :: "str list \<Rightarrow> bool" where
  "dirs_ok ds \<longleftrightarrow> ds \<noteq> [] \<and> (\<forall>d \<in> set ds. CHR ''/'' \<notin> set d \<and> CHR '','' \<notin> set d)"

definition dirs_pattern :: "str list \<Rightarrow> str" where
  "dirs_pattern ds = ''/'' @ join_with ''/'' ds @ ''/''"

definition kernel_skip_buf :: "str list list \<Rightarrow> str" where
  "kernel_skip_buf dss = join_with '','' (map dirs_pattern dss)"

definition kernel_default_dirs :: "str list list" where
  "kernel_default_dirs =
     [[''proc''], [''sys''], [''dev''], [''run''], [''tmp''], [''var'', ''run''], [''var'', ''cache''],
      [''var'', ''lib'', ''pacman''], [''.git''], [''node_modules''], [''target''], [''.cargo'', ''registry'']]"

lemma set_join_with: "c \<in> set (join_with sep xs) \<Longrightarrow> c \<in> set sep \<or> (\<exists>x \<in> set xs. c \<in> set x)"
proof (induction xs)
  case (Cons x xs)
  then show ?case by (cases "xs = []") (auto simp: join_Cons)
qed simp

lemma split_kernel_skip_buf:
  assumes "list_all dirs_ok dss" and "dss \<noteq> []" and "length (kernel_skip_buf dss) < PROVFS_SKIP_MAX"
  shows "split_on CHR '','' (cut PROVFS_SKIP_MAX (kernel_skip_buf dss)) = map dirs_pattern dss"
proof -
  have "cut PROVFS_SKIP_MAX (kernel_skip_buf dss) = kernel_skip_buf dss"
    using assms(3) by (simp add: cut_def)
  moreover have "split_on CHR '','' (kernel_skip_buf dss) = map dirs_pattern dss"
    unfolding kernel_skip_buf_def using assms(1,2)
    by (intro split_join) (auto simp: dirs_ok_def dirs_pattern_def list_all_iff dest: set_join_with)
  ultimately show ?thesis by simp
qed

lemma kernel_skip_iff:
  assumes "list_all dirs_ok dss" and "dss \<noteq> []" and "length (kernel_skip_buf dss) < PROVFS_SKIP_MAX"
    and "names \<noteq> []" and "list_all file_name names"
  shows "provfs_path_skipped (kernel_skip_buf dss) (Some (''/'' @ join_with ''/'' names)) \<longleftrightarrow>
    (\<exists>ds \<in> set dss. sublist ds (butlast names))"
proof -
  have "sublist (dirs_pattern ds) (''/'' @ join_with ''/'' names) \<longleftrightarrow> sublist ds (butlast names)"
    if "ds \<in> set dss" for ds
    using that assms(1,4,5) unfolding dirs_pattern_def
    by (intro sublist_slash_dirs) (auto simp: dirs_ok_def list_all_iff file_name_def)
  moreover have "dirs_pattern ds \<noteq> []" for ds by (simp add: dirs_pattern_def)
  ultimately show ?thesis
    unfolding provfs_path_skipped_def Let_def option.case split_kernel_skip_buf [OF assms(1-3)]
      kernel_skip.matches_iff [of "map dirs_pattern dss"] by simp
qed

text \<open>Lists of single names: the kernel's writing of them is an instance of the shared interface.\<close>

interpretation kernel_dirs: dir_matcher strsep_loop "\<lambda>d. ''/'' @ d @ ''/''" "\<lambda>names. ''/'' @ join_with ''/'' names"
proof
  fix names d
  assume "names \<noteq> []" and "list_all file_name names" and "CHR ''/'' \<notin> set d"
  then show "strsep_loop [''/'' @ d @ ''/''] (''/'' @ join_with ''/'' names) \<longleftrightarrow> d \<in> set (butlast names)"
    using sublist_slash_names [of names d] by (simp add: list_all_iff file_name_def del: append_Cons)
qed

lemma kernel_defaults: "PROVFS_SKIP_DEFAULT = kernel_skip_buf kernel_default_dirs"
  "list_all dirs_ok kernel_default_dirs" "length (kernel_skip_buf kernel_default_dirs) < PROVFS_SKIP_MAX"
  by (code_simp, code_simp, code_simp)

lemma kernel_singletons:
  "list_all dir_pattern_ok ds \<Longrightarrow> list_all dirs_ok (map (\<lambda>d. [d]) ds)"
  by (auto simp: list_all_iff dirs_ok_def dir_pattern_ok_def)

section \<open>Properties\<close>

text \<open>
  With the list the module boots with, a file is not stamped exactly when the directories it
  lies in contain \<^verbatim>\<open>proc\<close>, \<^verbatim>\<open>.git\<close>, ..., or the run \<^verbatim>\<open>var/cache\<close>, \<^verbatim>\<open>var/lib/pacman\<close>,
  \<^verbatim>\<open>.cargo/registry\<close>, at any depth: a home directory with a subdirectory \<^verbatim>\<open>run\<close> or \<^verbatim>\<open>tmp\<close> is
  affected as the system's own is.
\<close>

theorem kernel_skip_defaults_iff:
  assumes "names \<noteq> []" and "list_all file_name names"
  shows "provfs_path_skipped PROVFS_SKIP_DEFAULT (Some (''/'' @ join_with ''/'' names)) \<longleftrightarrow>
    (\<exists>ds \<in> set kernel_default_dirs. sublist ds (butlast names))"
  unfolding kernel_defaults(1)
  by (rule kernel_skip_iff [OF kernel_defaults(2) _ kernel_defaults(3) assms])
    (simp add: kernel_default_dirs_def)

theorem kernel_skip_defaults_iff_witness:
  "provfs_path_skipped PROVFS_SKIP_DEFAULT (Some (''/'' @ join_with ''/'' [''home'', ''u'', ''tmp'', ''notes''])) \<and>
   \<not> provfs_path_skipped PROVFS_SKIP_DEFAULT (Some (''/'' @ join_with ''/'' [''home'', ''u'', ''cache'', ''tmp'']))"
proof -
  have 1: "list_all file_name [''home'', ''u'', ''tmp'', ''notes'']"
    and 2: "list_all file_name [''home'', ''u'', ''cache'', ''tmp'']"
    by code_simp+
  show ?thesis
    using kernel_skip_defaults_iff [OF _ 1] kernel_skip_defaults_iff [OF _ 2]
    by (simp add: kernel_default_dirs_def sublist_Cons_right)
qed

text \<open>
  C20. Writing the sysctl changes what is stamped. After an administrator has written a list of
  directories, the hook makes an item for a close exactly when the file was open for writing, has a
  dentry, is regular, and none of the listed directories is among those it lies in. (A list that is
  cut off at the buffer's 1023 bytes is excluded.)
\<close>

theorem sysctl_list_in_force:
  assumes "list_all dirs_ok dss" and "dss \<noteq> []" and "length (kernel_skip_buf dss) < PROVFS_SKIP_MAX"
    and "dostring (cut PROVFS_SKIP_MAX old) = Some (kernel_skip_buf dss)"
    and "rl_abs_path rl = Some (''/'' @ join_with ''/'' names)" and "names \<noteq> []" and "list_all file_name names"
  shows "provfs_file_release (provfs_sysctl_skip_prefixes dostring True old) tk rl \<noteq> None \<longleftrightarrow>
    rl_write rl \<and> rl_has_dentry rl \<and> rl_regular rl \<and> (\<forall>ds \<in> set dss. \<not> sublist ds (butlast names))"
proof -
  have "provfs_sysctl_skip_prefixes dostring True old = kernel_skip_buf dss"
    using assms(3,4) by (simp add: provfs_sysctl_skip_prefixes_def cut_def)
  then show ?thesis
    using kernel_skip_iff [OF assms(1-3,6,7)] assms(5) by (simp add: file_release_iff del: not_None_eq)
qed

theorem sysctl_list_in_force_witness:
  "provfs_file_release (provfs_sysctl_skip_prefixes (\<lambda>_. Some (kernel_skip_buf [[''build''], [''var'', ''log'']])) True PROVFS_SKIP_DEFAULT)
     demo_task \<lparr>rl_write = True, rl_has_dentry = True, rl_regular = True, rl_dentry = ''/tmp/f'',
       rl_abs_path = Some (''/'' @ join_with ''/'' [''tmp'', ''f'']), rl_seconds = 0\<rparr> \<noteq> None"
proof -
  have h: "list_all dirs_ok [[''build''], [''var'', ''log'']]" "list_all file_name [''tmp'', ''f'']"
    "length (kernel_skip_buf [[''build''], [''var'', ''log'']]) < PROVFS_SKIP_MAX"
    by code_simp+
  show ?thesis
    by (rule sysctl_list_in_force [OF h(1) _ h(3) _ _ _ h(2), THEN iffD2]) (simp_all add: sublist_Cons_right)
qed

text \<open>
  C21. The two halves agree on what to skip. Given the same directory names, the kernel module's
  list written \<^verbatim>\<open>/d1/,/d2/,...\<close> skips the file at \<open>src/rel\<close> exactly when the overlay mounted on
  \<open>src\<close> with the list \<^verbatim>\<open>d1/\<close>, \<^verbatim>\<open>d2/\<close>, ... skips \<open>rel\<close>, or when \<open>src\<close> itself lies in one of the
  directories, which only the kernel, seeing the absolute path, can tell.
\<close>

theorem skip_lists_agree:
  assumes "list_all dir_pattern_ok ds" and "ds \<noteq> []"
    and "length (kernel_skip_buf (map (\<lambda>d. [d]) ds)) < PROVFS_SKIP_MAX"
    and "list_all file_name src" and "rel \<noteq> []" and "list_all file_name rel" and "list_all utf8_valid rel"
  shows "provfs_path_skipped (kernel_skip_buf (map (\<lambda>d. [d]) ds)) (Some (''/'' @ join_with ''/'' (src @ rel))) \<longleftrightarrow>
    should_skip \<lparr>prefixes = map (\<lambda>d. d @ ''/'') ds\<rparr> (join_with ''/'' rel) \<or> (\<exists>d \<in> set ds. d \<in> set src)"
proof -
  let ?dss = "map (\<lambda>d. [d]) ds"
  have dirs: "\<forall>d \<in> set ds. CHR ''/'' \<notin> set d"
    using assms(1) by (auto simp: list_all_iff dir_pattern_ok_def)
  have "split_on CHR '','' (cut PROVFS_SKIP_MAX (kernel_skip_buf ?dss)) = map (\<lambda>d. ''/'' @ d @ ''/'') ds"
    using split_kernel_skip_buf [OF kernel_singletons [OF assms(1)] _ assms(3)] assms(2)
    by (simp add: dirs_pattern_def comp_def)
  then
  have "provfs_path_skipped (kernel_skip_buf ?dss) (Some p) \<longleftrightarrow> strsep_loop (map (\<lambda>d. ''/'' @ d @ ''/'') ds) p" for p
    by (simp add: provfs_path_skipped_def)
  moreover have "src @ rel \<noteq> []" "list_all file_name (src @ rel)" using assms(4-6) by simp_all
  note kernel_dirs.matches_dirs [OF this dirs]
  moreover have "should_skip \<lparr>prefixes = map (\<lambda>d. d @ ''/'') ds\<rparr> (join_with ''/'' rel) \<longleftrightarrow>
      (\<exists>d \<in> set ds. d \<in> set (butlast rel))"
    using overlay_dirs.matches_dirs [OF assms(5,6) dirs] assms(7) by (simp add: should_skip_def utf8_lossy_names)
  ultimately show ?thesis using assms(5) by (auto simp: butlast_append)
qed

theorem skip_lists_agree_witness:
  "provfs_path_skipped (kernel_skip_buf (map (\<lambda>d. [d]) [''build'', ''dist'']))
     (Some (''/'' @ join_with ''/'' ([''home'', ''u''] @ [''app'', ''dist'', ''x'']))) \<and>
   should_skip \<lparr>prefixes = map (\<lambda>d. d @ ''/'') [''build'', ''dist'']\<rparr> (join_with ''/'' [''app'', ''dist'', ''x''])"
proof -
  have h: "list_all dir_pattern_ok [''build'', ''dist'']" "list_all file_name [''home'', ''u'']"
    "list_all file_name [''app'', ''dist'', ''x'']" "list_all utf8_valid [''app'', ''dist'', ''x'']"
    "length (kernel_skip_buf (map (\<lambda>d. [d]) [''build'', ''dist''])) < PROVFS_SKIP_MAX"
    by code_simp+
  have "should_skip \<lparr>prefixes = map (\<lambda>d. d @ ''/'') [''build'', ''dist'']\<rparr> (join_with ''/'' [''app'', ''dist'', ''x''])"
    by code_simp
  with skip_lists_agree [OF h(1) _ h(5,2) _ h(3,4)] show ?thesis by simp
qed

text \<open>
  C19. What a worker leaves on the file, when the file still exists and takes attributes: session and
  timestamp are those of the item; a field the writer's environment gave is set; and a field it did
  not give keeps what an earlier writer left there, so no empty attribute is ever made, and the
  field of the earlier writer stays beside the new session.
\<close>

theorem worker_stamps_item:
  assumes "xattr_backend os (wk_dentry k)" and "settable os (wk_dentry k) P" and "P w"
    and "provfs_stamp_worker os k w = w'"
  shows "attr os (wk_dentry k) w' KEY_SESSION = Inr (Some (wk_session k)) \<and>
    attr os (wk_dentry k) w' KEY_TS = Inr (Some (wk_ts k)) \<and>
    attr os (wk_dentry k) w' KEY_TOOL =
      (if wk_tool k = [] then attr os (wk_dentry k) w KEY_TOOL else Inr (Some (wk_tool k))) \<and>
    attr os (wk_dentry k) w' KEY_TURN =
      (if wk_turn k = [] then attr os (wk_dentry k) w KEY_TURN else Inr (Some (wk_turn k))) \<and>
    attr os (wk_dentry k) w' KEY_INTENT =
      (if wk_intent k = [] then attr os (wk_dentry k) w KEY_INTENT else Inr (Some (wk_intent k))) \<and>
    (\<forall>key. key \<notin> {KEY_SESSION, KEY_TS, KEY_TOOL, KEY_TURN, KEY_INTENT} \<longrightarrow>
       attr os (wk_dentry k) w' key = attr os (wk_dentry k) w key)"
  using write_all_attr [OF assms(1-3), of "stamp_writes k"] assms(4)
  by (simp add: provfs_stamp_worker_def stamp_writes_def)

definition demo_work :: work where
  "demo_work = make_work ''/f'' ''pid:7;uid:0'' ''100'' ''bash'' ''3'' []"

definition old_mem :: mem where
  "old_mem = mem_put ''/f'' (plain_node IsFile ''hi'' \<lparr>n_xattrs := [(KEY_INTENT, ''old'')]\<rparr>) (mem_files [])"

theorem worker_stamps_item_witness:
  "attr mem_os ''/f'' (provfs_stamp_worker mem_os demo_work old_mem) KEY_TURN = Inr (Some ''3'') \<and>
   attr mem_os ''/f'' (provfs_stamp_worker mem_os demo_work old_mem) KEY_INTENT = Inr (Some ''old'')"
proof -
  have k: "wk_dentry demo_work = ''/f''" "wk_turn demo_work = ''3''" "wk_intent demo_work = []"
    by code_simp+
  have "mem_node old_mem ''/f'' \<noteq> None" by (simp add: old_mem_def)
  moreover have "attr mem_os ''/f'' old_mem KEY_INTENT = Inr (Some ''old'')"
    by (simp add: attr_def mem_os_def old_mem_def)
  ultimately show ?thesis
    using worker_stamps_item [OF mem_xattr_backend mem_settable _ refl, of old_mem demo_work] by (simp add: k)
qed

end
