(* ===== verification/Lsm_Queue.thy ===== *)
theory Lsm_Queue
  imports Lsm_Work "HOL-Library.Multiset"
begin

text \<open>
  The bounded work queue of \<^verbatim>\<open>lsm/provfs_work.c\<close>. Tasks that close files enqueue items and kernel
  workers process them, concurrently. The steps of the module itself, \<open>module_step\<close>, are one for each
  access of \<^verbatim>\<open>provfs_enqueue_stamp\<close> and \<^verbatim>\<open>provfs_stamp_worker\<close> to the shared state; \<open>call_step\<close> is the
  beginning of a call; \<open>wq_step\<close> adds what the environment does, a write to the sysctl or any change
  to the world. So a run of \<open>wq_step\<close> is any interleaving, and a run of \<open>module_step\<close> is what the
  module does when it is left alone with the calls already begun. \<open>provfs_enqueue_stamp\<close> is the same
  code run without interruption. The reference count of a dentry is the number of references this
  module holds. \<open>wq_calls\<close> and \<open>wq_done\<close> are history variables: the calls begun and the items whose
  worker has ended.
\<close>

section \<open>State\<close>

text \<open>
  \<^verbatim>\<open>queue_max\<close> may be set from 1 up to \<open>provfs_queue_max_max\<close>. The step relation has the upper bound
  as a parameter \<open>M\<close>, to say what a lower limit in use gives.
\<close>

definition provfs_queue_max_min :: int where "provfs_queue_max_min = 1"

definition provfs_queue_max_max :: int where "provfs_queue_max_max = 2 ^ 20"

definition provfs_queue_max_default :: int where "provfs_queue_max_default = 1024"

text \<open>
  Where a task is in \<^verbatim>\<open>provfs_enqueue_stamp\<close>: outside; past the first check; between the two reads of
  the comparison of the depth with \<^verbatim>\<open>queue_max\<close>, whose order C leaves open; past the comparison; with
  its item allocated and the dentry referenced; with the depth raised; after \<^verbatim>\<open>queue_work\<close> refused;
  with the depth lowered again; at the label \<^verbatim>\<open>drop\<close>.
\<close>

datatype enq_pc = Idle | Called work | Saw_Depth work int | Saw_Max work int | Passed work
  | Allocated work | Bumped work | Failed work | Undone work | Dropping

text \<open>Where a worker is: it has attributes left to write, or has dropped its reference.\<close>

datatype worker_pc = Writing work "(str \<times> str) list" | Released work

fun worker_item :: "worker_pc \<Rightarrow> work" where
  "worker_item (Writing k kvs) = k" | "worker_item (Released k) = k"

record 'w wq =
  wq_up :: bool
  wq_sysctl :: bool
  wq_depth :: int
  wq_dropped :: int
  wq_max :: int
  wq_refs :: "path \<Rightarrow> int"
  wq_tasks :: "enq_pc multiset"
  wq_queue :: "work list"
  wq_workers :: "worker_pc multiset"
  wq_calls :: int
  wq_done :: "work multiset"
  wq_world :: 'w

definition dget :: "path \<Rightarrow> 'w wq \<Rightarrow> 'w wq" where
  "dget d s = s\<lparr>wq_refs := (wq_refs s)(d := wq_refs s d + 1)\<rparr>"

definition dput :: "path \<Rightarrow> 'w wq \<Rightarrow> 'w wq" where
  "dput d s = s\<lparr>wq_refs := (wq_refs s)(d := wq_refs s d - 1)\<rparr>"

definition set_task :: "enq_pc multiset \<Rightarrow> enq_pc \<Rightarrow> 'w wq \<Rightarrow> 'w wq" where
  "set_task others pc s = s\<lparr>wq_tasks := add_mset pc others\<rparr>"

definition begin_call :: "'w wq \<Rightarrow> 'w wq" where
  "begin_call s = s\<lparr>wq_calls := wq_calls s + 1\<rparr>"

definition count_drop :: "'w wq \<Rightarrow> 'w wq" where
  "count_drop s = s\<lparr>wq_dropped := wq_dropped s + 1\<rparr>"

section \<open>Initialisation and the read-only counters\<close>

definition ENOMEM :: errno where "ENOMEM = 12"

definition EPERM :: errno where "EPERM = 1"

definition provfs_work_init :: "bool \<Rightarrow> bool \<Rightarrow> 'w wq \<Rightarrow> (errno + unit) \<times> 'w wq" where
  "provfs_work_init alloc_ok register_ok s =
     (if \<not> alloc_ok then (Inl ENOMEM, s\<lparr>wq_up := False\<rparr>)
      else (Inr (), s\<lparr>wq_up := True, wq_sysctl := register_ok\<rparr>))"

text \<open>\<^verbatim>\<open>provfs_init\<close> of \<^verbatim>\<open>provfs_lsm.c\<close>: the hooks stay registered whatever this returns.\<close>

definition provfs_init :: "bool \<Rightarrow> bool \<Rightarrow> 'w wq \<Rightarrow> int \<times> 'w wq" where
  "provfs_init alloc_ok register_ok s =
     (let (ret, s') = provfs_work_init alloc_ok register_ok s
      in case ret of Inl e \<Rightarrow> (- e, s') | Inr u \<Rightarrow> (0, s'))"

text \<open>
  Tearing down. \<^verbatim>\<open>destroy_workqueue\<close> waits until nothing is queued or running: \<open>None\<close> says that the call
  does not return in this state.
\<close>

definition provfs_work_exit :: "'w wq \<Rightarrow> 'w wq option" where
  "provfs_work_exit s =
     (let s1 = s\<lparr>wq_sysctl := False\<rparr>
      in if \<not> wq_up s1 then Some s1
         else if wq_queue s1 \<noteq> [] \<or> wq_workers s1 \<noteq> {#} then None
         else Some (s1\<lparr>wq_up := False\<rparr>))"

definition provfs_sysctl_depth :: "bool \<Rightarrow> 'w wq \<Rightarrow> errno + int" where
  "provfs_sysctl_depth wr s = (let snapshot = wq_depth s in if wr then Inl EPERM else Inr snapshot)"

definition provfs_sysctl_dropped :: "bool \<Rightarrow> 'w wq \<Rightarrow> errno + int" where
  "provfs_sysctl_dropped wr s = (let snapshot = wq_dropped s in if wr then Inl EPERM else Inr snapshot)"

section \<open>One call, uninterrupted\<close>

text \<open>
  The arguments: a null pointer is \<open>None\<close>. Only the first three are refused when null.
\<close>

definition enqueue_args ::
    "path option \<Rightarrow> str option \<Rightarrow> str option \<Rightarrow> str option \<Rightarrow> str option \<Rightarrow> str option \<Rightarrow> work option" where
  "enqueue_args dentry sess ts tool_v turn_v intent_v =
     (case (dentry, sess, ts) of
        (Some d, Some se, Some t) \<Rightarrow>
          Some (make_work d se t (case tool_v of None \<Rightarrow> [] | Some v \<Rightarrow> v)
                 (case turn_v of None \<Rightarrow> [] | Some v \<Rightarrow> v) (case intent_v of None \<Rightarrow> [] | Some v \<Rightarrow> v))
      | _ \<Rightarrow> None)"

definition provfs_enqueue_stamp :: "bool \<Rightarrow> bool \<Rightarrow> work option \<Rightarrow> 'w wq \<Rightarrow> 'w wq" where
  "provfs_enqueue_stamp alloc_ok queue_ok args s0 =
     (let s = begin_call s0 in
      case args of
        None \<Rightarrow> count_drop s
      | Some k \<Rightarrow>
          if \<not> wq_up s then count_drop s
          else if wq_max s \<le> wq_depth s then count_drop s
          else if \<not> alloc_ok then count_drop s
          else let s1 = dget (wk_dentry k) s;
                   s2 = s1\<lparr>wq_depth := wq_depth s1 + 1\<rparr>
               in if queue_ok then s2\<lparr>wq_queue := wq_queue s2 @ [k]\<rparr>
                  else count_drop (dput (wk_dentry k) (s2\<lparr>wq_depth := wq_depth s2 - 1\<rparr>)))"

text \<open>The whole hook: what it decides to stamp is passed to the queue.\<close>

definition release_hook :: "bool \<Rightarrow> bool \<Rightarrow> str \<Rightarrow> task \<Rightarrow> release \<Rightarrow> 'w wq \<Rightarrow> 'w wq" where
  "release_hook alloc_ok queue_ok skipbuf tk rl s =
     (case provfs_file_release skipbuf tk rl of
        None \<Rightarrow> s
      | Some k \<Rightarrow> provfs_enqueue_stamp alloc_ok queue_ok (Some k) s)"

section \<open>The steps\<close>

inductive call_step :: "'w wq \<Rightarrow> 'w wq \<Rightarrow> bool" where
  refuse: "wq_tasks s = add_mset Idle T \<Longrightarrow> \<not> wq_up s \<or> args = (None :: work option) \<Longrightarrow>
    call_step s (set_task T Dropping (begin_call s))"
| call: "wq_tasks s = add_mset Idle T \<Longrightarrow> wq_up s \<Longrightarrow> call_step s (set_task T (Called k) (begin_call s))"

inductive module_step :: "'w os \<Rightarrow> 'w wq \<Rightarrow> 'w wq \<Rightarrow> bool" for os :: "'w os" where
  read_depth: "wq_tasks s = add_mset (Called k) T \<Longrightarrow>
    module_step os s (set_task T (Saw_Depth k (wq_depth s)) s)"
| read_max: "wq_tasks s = add_mset (Called k) T \<Longrightarrow>
    module_step os s (set_task T (Saw_Max k (wq_max s)) s)"
| compare_max: "wq_tasks s = add_mset (Saw_Depth k d) T \<Longrightarrow>
    module_step os s (set_task T (if wq_max s \<le> d then Dropping else Passed k) s)"
| compare_depth: "wq_tasks s = add_mset (Saw_Max k m) T \<Longrightarrow>
    module_step os s (set_task T (if m \<le> wq_depth s then Dropping else Passed k) s)"
| no_memory: "wq_tasks s = add_mset (Passed k) T \<Longrightarrow> module_step os s (set_task T Dropping s)"
| allocate: "wq_tasks s = add_mset (Passed k) T \<Longrightarrow>
    module_step os s (dget (wk_dentry k) (set_task T (Allocated k) s))"
| bump: "wq_tasks s = add_mset (Allocated k) T \<Longrightarrow>
    module_step os s ((set_task T (Bumped k) s)\<lparr>wq_depth := wq_depth s + 1\<rparr>)"
| queue_ok: "wq_tasks s = add_mset (Bumped k) T \<Longrightarrow>
    module_step os s ((set_task T Idle s)\<lparr>wq_queue := wq_queue s @ [k]\<rparr>)"
| queue_fails: "wq_tasks s = add_mset (Bumped k) T \<Longrightarrow> module_step os s (set_task T (Failed k) s)"
| undo_depth: "wq_tasks s = add_mset (Failed k) T \<Longrightarrow>
    module_step os s ((set_task T (Undone k) s)\<lparr>wq_depth := wq_depth s - 1\<rparr>)"
| undo_ref: "wq_tasks s = add_mset (Undone k) T \<Longrightarrow>
    module_step os s (dput (wk_dentry k) (set_task T Dropping s))"
| drop: "wq_tasks s = add_mset Dropping T \<Longrightarrow> module_step os s (count_drop (set_task T Idle s))"
| work_starts: "wq_queue s = k # q \<Longrightarrow>
    module_step os s (s\<lparr>wq_queue := q, wq_workers := add_mset (Writing k (stamp_writes k)) (wq_workers s)\<rparr>)"
| work_writes: "wq_workers s = add_mset (Writing k ((key, v) # kvs)) W \<Longrightarrow>
    module_step os s (s\<lparr>wq_workers := add_mset (Writing k kvs) W,
      wq_world := snd (os_xattr_set os (wk_dentry k) key v (wq_world s))\<rparr>)"
| work_releases: "wq_workers s = add_mset (Writing k []) W \<Longrightarrow>
    module_step os s (dput (wk_dentry k) (s\<lparr>wq_workers := add_mset (Released k) W\<rparr>))"
| work_ends: "wq_workers s = add_mset (Released k) W \<Longrightarrow>
    module_step os s (s\<lparr>wq_workers := W, wq_depth := wq_depth s - 1, wq_done := add_mset k (wq_done s)\<rparr>)"

inductive wq_step :: "'w os \<Rightarrow> int \<Rightarrow> 'w wq \<Rightarrow> 'w wq \<Rightarrow> bool" for os :: "'w os" and M :: int where
  module: "module_step os s t \<Longrightarrow> wq_step os M s t"
| called: "call_step s t \<Longrightarrow> wq_step os M s t"
| sysctl_max: "wq_sysctl s \<Longrightarrow> provfs_queue_max_min \<le> m \<Longrightarrow> m \<le> M \<Longrightarrow> wq_step os M s (s\<lparr>wq_max := m\<rparr>)"
| outside: "wq_step os M s (s\<lparr>wq_world := w\<rparr>)"

definition wq_init :: "nat \<Rightarrow> 'w wq \<Rightarrow> bool" where
  "wq_init n s \<longleftrightarrow>
     wq_depth s = 0 \<and> wq_dropped s = 0 \<and> wq_max s = provfs_queue_max_default \<and> (\<forall>d. wq_refs s d = 0) \<and>
     wq_tasks s = replicate_mset n Idle \<and> wq_queue s = [] \<and> wq_workers s = {#} \<and>
     wq_calls s = 0 \<and> wq_done s = {#}"

lemmas wq_ops = set_task_def dget_def dput_def begin_call_def count_drop_def

inductive_cases wq_stepE: "wq_step os M s t"
inductive_cases module_stepE: "module_step os s t"
inductive_cases call_stepE: "call_step s t"

lemma module_runs: "(module_step os)\<^sup>*\<^sup>* s t \<Longrightarrow> (wq_step os M)\<^sup>*\<^sup>* s t"
  by (rule rtranclp_mono [THEN predicate2D, rotated]) (auto intro: wq_step.module)

lemma wq_two: "wq_step os M s t \<Longrightarrow> wq_step os M t u \<Longrightarrow> (wq_step os M)\<^sup>*\<^sup>* s u"
  by (rule rtranclp.rtrancl_into_rtrancl) (rule r_into_rtranclp)

lemma wq_chain: "wq_step os M s t \<Longrightarrow> (wq_step os M)\<^sup>*\<^sup>* t u \<Longrightarrow> (wq_step os M)\<^sup>*\<^sup>* s u"
  by (rule converse_rtranclp_into_rtranclp)

lemma module_chain:
  "module_step os s t \<Longrightarrow> (module_step os)\<^sup>*\<^sup>* t u \<Longrightarrow> (module_step os)\<^sup>*\<^sup>* s u"
  by (rule converse_rtranclp_into_rtranclp)

section \<open>The invariant\<close>

fun enq_counted :: "enq_pc \<Rightarrow> bool" where
  "enq_counted (Bumped k) = True" | "enq_counted (Failed k) = True" | "enq_counted _ = False"

fun enq_admitted :: "int \<Rightarrow> enq_pc \<Rightarrow> bool" where
  "enq_admitted M (Saw_Depth k d) = (d < M)" | "enq_admitted M (Passed k) = True"
| "enq_admitted M (Allocated k) = True" | "enq_admitted M _ = False"

fun saw_max_ok :: "int \<Rightarrow> enq_pc \<Rightarrow> bool" where
  "saw_max_ok M (Saw_Max k m) = (m \<le> M)" | "saw_max_ok M _ = True"

fun enq_holds :: "path \<Rightarrow> enq_pc \<Rightarrow> bool" where
  "enq_holds d (Allocated k) = (wk_dentry k = d)" | "enq_holds d (Bumped k) = (wk_dentry k = d)"
| "enq_holds d (Failed k) = (wk_dentry k = d)" | "enq_holds d (Undone k) = (wk_dentry k = d)"
| "enq_holds d _ = False"

fun worker_holds :: "path \<Rightarrow> worker_pc \<Rightarrow> bool" where
  "worker_holds d (Writing k kvs) = (wk_dentry k = d)" | "worker_holds d (Released k) = False"

abbreviation busy :: "enq_pc \<Rightarrow> bool" where "busy pc \<equiv> pc \<noteq> Idle"

definition count_if :: "('a \<Rightarrow> bool) \<Rightarrow> 'a multiset \<Rightarrow> int" where
  "count_if P M = int (size (filter_mset P M))"

lemma count_if_add [simp]: "count_if P (add_mset x M) = count_if P M + (if P x then 1 else 0)"
  by (simp add: count_if_def)

lemma count_if_empty [simp]: "count_if P {#} = 0"
  by (simp add: count_if_def)

lemma count_if_nonneg [simp]: "0 \<le> count_if P M"
  by (simp add: count_if_def)

lemma count_if_pos: "x \<in># M \<Longrightarrow> P x \<Longrightarrow> 0 < count_if P M"
  by (auto simp: count_if_def dest!: multi_member_split)

lemma count_if_le: "count_if P M \<le> int (size M)"
  by (simp add: count_if_def size_filter_mset_lesseq)

lemma count_if_idle: "\<not> P Idle \<Longrightarrow> count_if P (replicate_mset n Idle) = 0"
  by (induction n) simp_all

text \<open>
  The depth counts the items that were counted in and not yet out; the references are those of
  the items that hold one; the depth, with the tasks that are about to raise it, never exceeds the
  largest \<^verbatim>\<open>queue_max\<close> by as much as the number of tasks; and each call begun was dropped, or its
  item is done, or it is still somewhere on the way.
\<close>

definition wq_inv :: "int \<Rightarrow> nat \<Rightarrow> 'w wq \<Rightarrow> bool" where
  "wq_inv M n s \<longleftrightarrow>
     size (wq_tasks s) = n \<and> (\<forall>t \<in># wq_tasks s. saw_max_ok M t) \<and> 1 \<le> wq_max s \<and> wq_max s \<le> M \<and>
     wq_depth s = count_if enq_counted (wq_tasks s) + int (length (wq_queue s)) + int (size (wq_workers s)) \<and>
     (\<forall>d. wq_refs s d = count_if (enq_holds d) (wq_tasks s) + count_if (\<lambda>k. wk_dentry k = d) (mset (wq_queue s))
        + count_if (worker_holds d) (wq_workers s)) \<and>
     wq_depth s + count_if (enq_admitted M) (wq_tasks s) \<le> M + int n - (if n = 0 then 0 else 1) \<and>
     wq_calls s = wq_dropped s + int (size (wq_done s)) + int (length (wq_queue s)) + int (size (wq_workers s))
       + count_if busy (wq_tasks s)"

lemma inv_module:
  assumes "module_step os s t" and inv: "wq_inv M n s"
  shows "wq_inv M n t"
proof -
  have le: "count_if (enq_admitted M) T \<le> int (size T)" for T by (rule count_if_le)
  from assms(1) show ?thesis
  proof cases
    case (read_depth k T)
    with inv le [of T] show ?thesis by (auto simp: wq_inv_def wq_ops)
  next
    case (compare_depth k m T)
    with inv le [of T] show ?thesis by (auto simp: wq_inv_def wq_ops)
  qed (use inv in \<open>auto simp: wq_inv_def wq_ops split: if_splits\<close>)
qed

lemma inv_call: "call_step s t \<Longrightarrow> wq_inv M n s \<Longrightarrow> wq_inv M n t"
  by (erule call_stepE) (auto simp: wq_inv_def wq_ops)

interpretation deferred: inv_machine "\<lambda>s. provfs_queue_max_default \<le> M \<and> wq_init n s" "wq_step os M"
    "wq_inv M n" for M n os
proof
  fix s :: "'a wq"
  assume "provfs_queue_max_default \<le> M \<and> wq_init n s"
  then show "wq_inv M n s"
    by (auto simp: wq_init_def wq_inv_def count_if_idle provfs_queue_max_default_def)
next
  fix s t :: "'a wq"
  assume "wq_step os M s t" and inv: "wq_inv M n s"
  then show "wq_inv M n t"
  proof cases
    case module
    then show ?thesis using inv by (rule inv_module)
  next
    case called
    then show ?thesis using inv by (rule inv_call)
  qed (use inv in \<open>auto simp: wq_inv_def wq_ops provfs_queue_max_min_def\<close>)
qed

section \<open>Accepted items\<close>

text \<open>The items that got into the queue: waiting, with a worker, or done.\<close>

definition accepted :: "'w wq \<Rightarrow> work multiset" where
  "accepted s = mset (wq_queue s) + image_mset worker_item (wq_workers s) + wq_done s"

lemma accepted_module:
  "module_step os s t \<Longrightarrow> accepted s \<subseteq># accepted t \<and> wq_done s \<subseteq># wq_done t"
  by (erule module_stepE) (simp_all add: accepted_def wq_ops)

lemma accepted_call: "call_step s t \<Longrightarrow> accepted s = accepted t \<and> wq_done s = wq_done t"
  by (erule call_stepE) (simp_all add: accepted_def wq_ops)

lemma accepted_step: "wq_step os M s t \<Longrightarrow> accepted s \<subseteq># accepted t \<and> wq_done s \<subseteq># wq_done t"
  by (erule wq_stepE) (auto dest: accepted_module accepted_call simp: accepted_def)

lemma accepted_steps:
  "(wq_step os M)\<^sup>*\<^sup>* s t \<Longrightarrow> accepted s \<subseteq># accepted t \<and> wq_done s \<subseteq># wq_done t"
proof (induction rule: rtranclp_induct)
  case (step t u)
  then show ?case using accepted_step subset_mset.trans by blast
qed simp

section \<open>Progress\<close>

definition quiet :: "'w wq \<Rightarrow> bool" where
  "quiet s \<longleftrightarrow> wq_queue s = [] \<and> wq_workers s = {#} \<and> (\<forall>t \<in># wq_tasks s. t = Idle)"

text \<open>A bound on the steps the module has left, when no new call begins.\<close>

fun task_steps :: "enq_pc \<Rightarrow> nat" where
  "task_steps Idle = 0" | "task_steps (Called k) = 14" | "task_steps (Saw_Depth k d) = 13"
| "task_steps (Saw_Max k m) = 13" | "task_steps (Passed k) = 12" | "task_steps (Allocated k) = 11"
| "task_steps (Bumped k) = 10" | "task_steps (Failed k) = 3" | "task_steps (Undone k) = 2"
| "task_steps Dropping = 1"

fun worker_steps :: "worker_pc \<Rightarrow> nat" where
  "worker_steps (Writing k kvs) = length kvs + 2" | "worker_steps (Released k) = 1"

definition steps_left :: "'w wq \<Rightarrow> nat" where
  "steps_left s = (\<Sum>t \<in># wq_tasks s. task_steps t) + 9 * length (wq_queue s)
     + (\<Sum>k \<in># wq_workers s. worker_steps k)"

lemma stamp_writes_length: "length (stamp_writes k) \<le> 5"
  by (simp add: stamp_writes_def)

text \<open>Every step of the module, whichever it is, uses up one.\<close>

lemma module_step_less: "module_step os s t \<Longrightarrow> steps_left t < steps_left s"
proof (erule module_stepE)
  fix k q
  assume "wq_queue s = k # q"
    and "t = s\<lparr>wq_queue := q, wq_workers := add_mset (Writing k (stamp_writes k)) (wq_workers s)\<rparr>"
  then show "steps_left t < steps_left s"
    using stamp_writes_length [of k] by (simp add: steps_left_def)
qed (auto simp: steps_left_def wq_ops)

lemma module_runs_bounded: "(module_step os ^^ j) s t \<Longrightarrow> j + steps_left t \<le> steps_left s"
proof (induction j arbitrary: t)
  case (Suc j)
  then obtain u where "(module_step os ^^ j) s u" "module_step os u t" by auto
  with Suc.IH module_step_less show ?case by fastforce
qed simp

lemma module_run_ends: "\<exists>t. (module_step os)\<^sup>*\<^sup>* s t \<and> (\<nexists>u. module_step os t u)"
proof (induction "steps_left s" arbitrary: s rule: less_induct)
  case less
  show ?case
  proof (cases "\<exists>u. module_step os s u")
    case True
    then obtain u where u: "module_step os s u" by blast
    from less.hyps [OF module_step_less [OF u]] show ?thesis using module_chain [OF u] by blast
  qed blast
qed

text \<open>A state in which the module can do nothing is quiet.\<close>

lemma worker_can_go: "wq_workers s = add_mset x W \<Longrightarrow> \<exists>t. module_step os s t"
proof (cases x)
  case (Writing k kvs)
  assume "wq_workers s = add_mset x W"
  with Writing show ?thesis
    by (cases kvs) (auto dest: module_step.work_releases module_step.work_writes)
qed (auto dest: module_step.work_ends)

lemma task_can_go: "wq_tasks s = add_mset x T \<Longrightarrow> x \<noteq> Idle \<Longrightarrow> \<exists>t. module_step os s t"
  by (cases x) (auto dest: module_step.read_depth module_step.compare_max module_step.compare_depth
      module_step.allocate module_step.bump module_step.queue_ok module_step.undo_depth module_step.undo_ref
      module_step.drop)

lemma stuck_quiet:
  assumes "\<nexists>t. module_step os s t"
  shows "quiet s"
  unfolding quiet_def
proof (intro conjI ballI)
  show "wq_queue s = []" using assms module_step.work_starts by (cases "wq_queue s") blast+
  show "wq_workers s = {#}" using assms worker_can_go by (cases "wq_workers s") blast+
  show "x = Idle" if "x \<in># wq_tasks s" for x
    using assms task_can_go multi_member_split [OF that] by blast
qed

lemma module_keeps: "module_step os s t \<Longrightarrow> wq_calls t = wq_calls s \<and> wq_max t = wq_max s \<and> wq_up t = wq_up s"
  by (erule module_stepE) (simp_all add: wq_ops)

lemma module_runs_keep: "(module_step os)\<^sup>*\<^sup>* s t \<Longrightarrow> wq_calls t = wq_calls s"
  by (induction rule: rtranclp_induct) (auto dest: module_keeps)

lemma inv_quiet:
  assumes "wq_inv M n s" and "quiet s"
  shows "wq_depth s = 0 \<and> (\<forall>d. wq_refs s d = 0) \<and> wq_calls s = wq_dropped s + int (size (wq_done s))"
proof -
  have "set_mset (wq_tasks s) \<subseteq> {Idle}" using assms(2) by (auto simp: quiet_def)
  from set_mset_subset_singletonD [OF this] obtain m where "wq_tasks s = replicate_mset m Idle" by blast
  with assms show ?thesis by (auto simp: wq_inv_def quiet_def count_if_idle)
qed

section \<open>Properties\<close>

text \<open>
  C8. The accounting of the queue under every interleaving of any number \<open>n\<close> of tasks and of the
  workers. The depth counts exactly the items counted in; it exceeds the limit by less than the
  number of tasks, so the 32-bit counter never wraps; in every state the references held on a dentry
  are those of the tasks that have taken theirs and not given it back, of the waiting items, and of
  the workers that have not released theirs, so that a worker with attributes left to write, and a
  task with an item in hand, always has one; every call is dropped and counted, accepted, or still
  on the way. When all are through, the depth is zero and every reference has been given back.
\<close>

theorem queue_accounting:
  assumes "provfs_queue_max_default \<le> M" and "wq_init n s0" and "(wq_step os M)\<^sup>*\<^sup>* s0 s"
  shows "wq_depth s =
      count_if enq_counted (wq_tasks s) + int (length (wq_queue s)) + int (size (wq_workers s)) \<and>
    (0 < n \<longrightarrow> wq_depth s < M + int n) \<and>
    (M = provfs_queue_max_max \<longrightarrow> n \<le> 2 ^ 22 \<longrightarrow> sint (word_of_int (wq_depth s) :: 32 word) = wq_depth s) \<and>
    (\<forall>d. wq_refs s d = count_if (enq_holds d) (wq_tasks s) + count_if (\<lambda>k. wk_dentry k = d) (mset (wq_queue s))
        + count_if (worker_holds d) (wq_workers s)) \<and>
    (\<forall>k kvs. Writing k kvs \<in># wq_workers s \<longrightarrow> 0 < wq_refs s (wk_dentry k)) \<and>
    (\<forall>k. Allocated k \<in># wq_tasks s \<or> Bumped k \<in># wq_tasks s \<or> k \<in> set (wq_queue s) \<longrightarrow>
       0 < wq_refs s (wk_dentry k)) \<and>
    wq_calls s = wq_dropped s + int (size (accepted s)) + count_if busy (wq_tasks s) \<and>
    (quiet s \<longrightarrow> wq_depth s = 0 \<and> (\<forall>d. wq_refs s d = 0))"
proof -
  have inv: "wq_inv M n s" using deferred.inv_reachable [OF _ assms(3)] assms(1,2) by blast
  have "0 \<le> count_if (enq_admitted M) (wq_tasks s)" by (rule count_if_nonneg)
  moreover have "wq_depth s + count_if (enq_admitted M) (wq_tasks s) \<le> M + int n - (if n = 0 then 0 else 1)"
    using inv by (simp add: wq_inv_def)
  ultimately have le: "wq_depth s \<le> M + int n - (if n = 0 then 0 else 1)" by linarith
  then have less: "0 < n \<longrightarrow> wq_depth s < M + int n" by (cases "n = 0") simp_all
  have depth: "wq_depth s =
      count_if enq_counted (wq_tasks s) + int (length (wq_queue s)) + int (size (wq_workers s))"
    using inv by (simp add: wq_inv_def)
  then have "0 \<le> wq_depth s" using count_if_nonneg [of enq_counted "wq_tasks s"] by linarith
  with le have word: "M = provfs_queue_max_max \<longrightarrow> n \<le> 2 ^ 22 \<longrightarrow>
      sint (word_of_int (wq_depth s) :: 32 word) = wq_depth s"
    by (auto simp: provfs_queue_max_max_def sint_sbintrunc' intro!: signed_take_bit_int_eq_self split: if_splits)
  have refs: "\<forall>d. wq_refs s d = count_if (enq_holds d) (wq_tasks s) + count_if (\<lambda>k. wk_dentry k = d) (mset (wq_queue s))
        + count_if (worker_holds d) (wq_workers s)"
    and calls: "wq_calls s = wq_dropped s + int (size (accepted s)) + count_if busy (wq_tasks s)"
    using inv by (simp_all add: wq_inv_def accepted_def)
  have held: "0 < wq_refs s d"
    if "(\<exists>x \<in># wq_tasks s. enq_holds d x) \<or> (\<exists>k \<in> set (wq_queue s). wk_dentry k = d) \<or>
      (\<exists>x \<in># wq_workers s. worker_holds d x)" for d
  proof -
    let ?T = "count_if (enq_holds d) (wq_tasks s)" and ?W = "count_if (worker_holds d) (wq_workers s)"
      and ?Q = "count_if (\<lambda>k. wk_dentry k = d) (mset (wq_queue s))"
    from that have "0 < ?T \<or> 0 < ?Q \<or> 0 < ?W" by (auto intro: count_if_pos)
    moreover have "0 \<le> ?T" "0 \<le> ?Q" "0 \<le> ?W" by simp_all
    moreover have "wq_refs s d = ?T + ?Q + ?W" using refs ..
    ultimately show ?thesis by linarith
  qed
  have "0 < wq_refs s (wk_dentry k)" if "Writing k kvs \<in># wq_workers s" for k kvs
    by (rule held) (use that in force)
  moreover have "0 < wq_refs s (wk_dentry k)"
    if "Allocated k \<in># wq_tasks s \<or> Bumped k \<in># wq_tasks s \<or> k \<in> set (wq_queue s)" for k
    by (rule held) (use that in force)
  ultimately show ?thesis using less depth word refs calls inv_quiet [OF inv] by blast
qed

definition demo_wq :: "mem wq" where
  "demo_wq = \<lparr>wq_up = True, wq_sysctl = True, wq_depth = 0, wq_dropped = 0,
     wq_max = provfs_queue_max_default, wq_refs = (\<lambda>d. 0), wq_tasks = {#Idle, Idle#}, wq_queue = [],
     wq_workers = {#}, wq_calls = 0, wq_done = {#}, wq_world = mem_files []\<rparr>"

lemma demo_wq_init: "wq_init 2 demo_wq"
  by (simp add: wq_init_def demo_wq_def numeral_2_eq_2)

lemma queue_maxes: "provfs_queue_max_default \<le> provfs_queue_max_max"
  by (simp add: provfs_queue_max_default_def provfs_queue_max_max_def)

definition demo_called :: "mem wq" where
  "demo_called = set_task {#Idle#} (Allocated demo_work) (dget ''/f'' (begin_call demo_wq))"

lemma demo_called_run: "(wq_step mem_os provfs_queue_max_max)\<^sup>*\<^sup>* demo_wq demo_called"
proof -
  let ?s1 = "set_task {#Idle#} (Called demo_work) (begin_call demo_wq)"
  let ?s2 = "set_task {#Idle#} (Saw_Depth demo_work (wq_depth ?s1)) ?s1"
  let ?s3 = "set_task {#Idle#} (if wq_max ?s2 \<le> 0 then Dropping else Passed demo_work) ?s2"
  have d: "wk_dentry demo_work = ''/f''" by (simp add: demo_work_def make_work_def)
  let ?s4 = "dget (wk_dentry demo_work) (set_task {#Idle#} (Allocated demo_work) ?s3)"
  have "call_step demo_wq ?s1" by (rule call_step.call) (simp_all add: demo_wq_def)
  then have s1: "wq_step mem_os provfs_queue_max_max demo_wq ?s1" by (rule wq_step.called)
  have "module_step mem_os ?s1 ?s2" by (rule module_step.read_depth) (simp add: wq_ops)
  then have s2: "wq_step mem_os provfs_queue_max_max ?s1 ?s2" by (rule wq_step.module)
  have "module_step mem_os ?s2 ?s3" by (rule module_step.compare_max) (simp add: wq_ops demo_wq_def)
  then have s3: "wq_step mem_os provfs_queue_max_max ?s2 ?s3" by (rule wq_step.module)
  have "module_step mem_os ?s3 ?s4"
    by (rule module_step.allocate) (simp add: wq_ops demo_wq_def provfs_queue_max_default_def)
  then have s4: "wq_step mem_os provfs_queue_max_max ?s3 ?s4" by (rule wq_step.module)
  moreover have "?s4 = demo_called" by (simp add: demo_called_def wq_ops d)
  ultimately have "wq_step mem_os provfs_queue_max_max ?s3 demo_called" by (simp only:)
  from wq_chain [OF s1 wq_chain [OF s2 wq_two [OF s3 this]]] show ?thesis .
qed

theorem queue_accounting_witness:
  "(wq_step mem_os provfs_queue_max_max)\<^sup>*\<^sup>* demo_wq demo_called \<and>
     wq_calls demo_called = wq_dropped demo_called + int (size (accepted demo_called)) + 1 \<and>
     wq_refs demo_called ''/f'' = 1"
proof -
  have "wq_tasks demo_called = {#Allocated demo_work, Idle#}" "wk_dentry demo_work = ''/f''"
    "wq_queue demo_called = []" "wq_workers demo_called = {#}"
    by (simp_all add: demo_called_def wq_ops demo_wq_def demo_work_def make_work_def)
  with demo_called_run queue_accounting [OF queue_maxes demo_wq_init demo_called_run] show ?thesis by simp
qed

text \<open>
  An item that has got into the queue is never lost: it stays among the waiting, the
  running and the finished items of every later state, whatever else happens, and an item that is
  finished stays finished.
\<close>

theorem accepted_items_stay:
  assumes "(wq_step os M)\<^sup>*\<^sup>* s t"
  shows "\<exists>new. accepted t = accepted s + new \<and> wq_done s \<subseteq># wq_done t"
proof -
  from accepted_steps [OF assms] show ?thesis by (metis subset_mset.le_iff_add)
qed

text \<open>
  C9. The queue drains when the module is left alone, however its steps are scheduled. From every
  reachable state there is a bound on the number of steps the module can make without a new call, a
  write to the sysctl or anything else from outside; so every such run comes to an end, and it can
  only end where no task is enqueueing, nothing waits and no worker runs: every item that had been
  accepted is done there, the depth is back at zero, no reference is held, every call has been
  counted as dropped or done, and tearing down would return.
\<close>

theorem queue_drains:
  assumes "provfs_queue_max_default \<le> M" and "wq_init n s0" and "(wq_step os M)\<^sup>*\<^sup>* s0 s"
  shows "(\<forall>j t. (module_step os ^^ j) s t \<longrightarrow> j \<le> steps_left s) \<and>
    (\<exists>t. (module_step os)\<^sup>*\<^sup>* s t \<and> (\<nexists>u. module_step os t u)) \<and>
    (\<forall>t. (module_step os)\<^sup>*\<^sup>* s t \<longrightarrow> (\<nexists>u. module_step os t u) \<longrightarrow>
       wq_tasks t = replicate_mset n Idle \<and> wq_queue t = [] \<and> wq_workers t = {#} \<and>
       accepted s \<subseteq># wq_done t \<and> wq_depth t = 0 \<and> (\<forall>d. wq_refs t d = 0) \<and> wq_calls t = wq_calls s \<and>
       wq_calls t = wq_dropped t + int (size (wq_done t)) \<and> provfs_work_exit t \<noteq> None)"
proof (intro conjI allI impI)
  fix j t
  assume "(module_step os ^^ j) s t"
  from module_runs_bounded [OF this] show "j \<le> steps_left s" by simp
next
  show "\<exists>t. (module_step os)\<^sup>*\<^sup>* s t \<and> (\<nexists>u. module_step os t u)" by (rule module_run_ends)
next
  fix t
  assume run: "(module_step os)\<^sup>*\<^sup>* s t" and "\<nexists>u. module_step os t u"
  then have quiet: "quiet t" by (intro stuck_quiet)
  then show "wq_queue t = []" "wq_workers t = {#}" by (simp_all add: quiet_def)
  have "accepted s \<subseteq># accepted t" using accepted_steps [OF module_runs [OF run]] ..
  with quiet show "accepted s \<subseteq># wq_done t" by (simp add: accepted_def quiet_def)
  have inv: "wq_inv M n t"
    using deferred.inv_reachable [of M n s0 os t] assms rtranclp_trans [OF assms(3) module_runs [OF run]] by blast
  from inv_quiet [OF inv quiet] show "wq_depth t = 0" "\<And>d. wq_refs t d = 0"
    "wq_calls t = wq_dropped t + int (size (wq_done t))" by simp_all
  show "wq_tasks t = replicate_mset n Idle"
  proof -
    have "set_mset (wq_tasks t) \<subseteq> {Idle}" using quiet by (auto simp: quiet_def)
    from set_mset_subset_singletonD [OF this] inv show ?thesis by (auto simp: wq_inv_def)
  qed
  show "wq_calls t = wq_calls s" by (rule module_runs_keep [OF run])
  show "provfs_work_exit t \<noteq> None" using quiet by (auto simp: provfs_work_exit_def quiet_def Let_def)
qed

theorem queue_drains_witness:
  "\<exists>t. (module_step mem_os)\<^sup>*\<^sup>* demo_called t \<and> (\<nexists>u. module_step mem_os t u) \<and>
     wq_calls t = 1 \<and> wq_calls t = wq_dropped t + int (size (wq_done t)) \<and> wq_tasks t = {#Idle, Idle#} \<and>
     wq_depth t = 0 \<and> wq_refs t ''/f'' = 0"
proof -
  have calls: "wq_calls demo_called = 1" by (simp add: demo_called_def wq_ops demo_wq_def)
  note drains = queue_drains [OF queue_maxes demo_wq_init demo_called_run]
  obtain t where t: "(module_step mem_os)\<^sup>*\<^sup>* demo_called t" "\<nexists>u. module_step mem_os t u"
    using conjunct1 [OF conjunct2 [OF drains]] by blast
  then have "wq_tasks t = replicate_mset 2 Idle \<and> wq_depth t = 0 \<and> (\<forall>d. wq_refs t d = 0) \<and>
      wq_calls t = wq_calls demo_called \<and> wq_calls t = wq_dropped t + int (size (wq_done t))"
    using conjunct2 [OF conjunct2 [OF drains]] by blast
  with t calls show ?thesis by (intro exI [of _ t]) (simp add: numeral_2_eq_2)
qed

end
