(* ===== verification/Lsm_Runs.thy ===== *)
theory Lsm_Runs
  imports Lsm_Queue
begin

text \<open>
  Runs of the work queue: an uninterrupted call of \<^verbatim>\<open>provfs_enqueue_stamp\<close> is one of them; without a
  work queue every run only counts drops; and the steps of two workers that stamp the same file can
  interleave their attribute writes in any way.
\<close>

section \<open>Chains of steps\<close>

lemma set_task_same: "wq_tasks s = add_mset pc T \<Longrightarrow> set_task T pc s = s"
  by (cases s) (simp add: set_task_def)

lemma set_task_twice:
  "set_task T p (set_task T q s) = set_task T p s" "wq_max (set_task T p s) = wq_max s"
  "wq_depth (set_task T p s) = wq_depth s"
  by (simp_all add: set_task_def)

lemma dropped_run: "wq_tasks s = add_mset Dropping T \<Longrightarrow> (module_step os)\<^sup>*\<^sup>* s (count_drop (set_task T Idle s))"
  by (rule r_into_rtranclp) (rule module_step.drop)

lemma dropping_run:
  assumes "wq_tasks s = add_mset Idle T"
  shows "(module_step os)\<^sup>*\<^sup>* (set_task T Dropping s) (count_drop s)"
proof -
  have "count_drop (set_task T Idle (set_task T Dropping s)) = count_drop s"
    using set_task_same [OF assms] by (simp add: wq_ops)
  with dropped_run [of "set_task T Dropping s" T os] show ?thesis by (simp add: set_task_def)
qed

lemma failed_run:
  assumes "wq_tasks s = add_mset Idle T"
  shows "(module_step os)\<^sup>*\<^sup>* ((set_task T (Failed k) (dget (wk_dentry k) s))\<lparr>wq_depth := wq_depth s + 1\<rparr>)
    (count_drop s)" (is "(module_step os)\<^sup>*\<^sup>* ?f _")
proof -
  let ?u = "(set_task T (Undone k) ?f)\<lparr>wq_depth := wq_depth ?f - 1\<rparr>"
  have f: "wq_tasks ?f = add_mset (Failed k) T" and u: "wq_tasks ?u = add_mset (Undone k) T"
    by (simp_all add: wq_ops)
  have "dput (wk_dentry k) (set_task T Dropping ?u) = set_task T Dropping s" by (simp add: wq_ops)
  with module_step.undo_ref [OF u, of os] dropping_run [OF assms, of os]
  have "(module_step os)\<^sup>*\<^sup>* ?u (count_drop s)" by (metis module_chain)
  with module_step.undo_depth [OF f] show ?thesis by (rule module_chain)
qed

lemma bumped_run:
  assumes "wq_tasks s = add_mset Idle T"
  shows "(module_step os)\<^sup>*\<^sup>* ((set_task T (Bumped k) (dget (wk_dentry k) s))\<lparr>wq_depth := wq_depth s + 1\<rparr>)
    (if queue_ok then (dget (wk_dentry k) s)\<lparr>wq_depth := wq_depth s + 1, wq_queue := wq_queue s @ [k]\<rparr>
     else count_drop s)" (is "(module_step os)\<^sup>*\<^sup>* ?b _")
proof -
  have b: "wq_tasks ?b = add_mset (Bumped k) T" by (simp add: wq_ops)
  have "set_task T (Failed k) ?b = (set_task T (Failed k) (dget (wk_dentry k) s))\<lparr>wq_depth := wq_depth s + 1\<rparr>"
    by (simp add: wq_ops)
  with module_step.queue_fails [OF b, of os] failed_run [OF assms, of os k]
  have "(module_step os)\<^sup>*\<^sup>* ?b (count_drop s)" by (metis module_chain)
  moreover have "(set_task T Idle ?b)\<lparr>wq_queue := wq_queue ?b @ [k]\<rparr> =
      (dget (wk_dentry k) s)\<lparr>wq_depth := wq_depth s + 1, wq_queue := wq_queue s @ [k]\<rparr>"
    using assms by (cases s) (simp add: wq_ops)
  ultimately show ?thesis using module_step.queue_ok [OF b, of os] by auto
qed

lemma passed_run:
  assumes "wq_tasks s = add_mset Idle T"
  shows "(module_step os)\<^sup>*\<^sup>* (set_task T (Passed k) s)
    (if \<not> alloc_ok then count_drop s
     else if queue_ok then (dget (wk_dentry k) s)\<lparr>wq_depth := wq_depth s + 1, wq_queue := wq_queue s @ [k]\<rparr>
     else count_drop s)" (is "(module_step os)\<^sup>*\<^sup>* ?p _")
proof -
  let ?a = "dget (wk_dentry k) (set_task T (Allocated k) ?p)"
  have p: "wq_tasks ?p = add_mset (Passed k) T" by (simp add: wq_ops)
  have a: "wq_tasks ?a = add_mset (Allocated k) T" by (simp add: wq_ops)
  have "(set_task T (Bumped k) ?a)\<lparr>wq_depth := wq_depth ?a + 1\<rparr> =
      (set_task T (Bumped k) (dget (wk_dentry k) s))\<lparr>wq_depth := wq_depth s + 1\<rparr>"
    by (simp add: wq_ops)
  with module_step.bump [OF a, of os] bumped_run [OF assms, of os k queue_ok]
  have "(module_step os)\<^sup>*\<^sup>* ?a (if queue_ok then (dget (wk_dentry k) s)
      \<lparr>wq_depth := wq_depth s + 1, wq_queue := wq_queue s @ [k]\<rparr> else count_drop s)"
    by (metis module_chain)
  with module_step.allocate [OF p] have "(module_step os)\<^sup>*\<^sup>* ?p (if queue_ok then (dget (wk_dentry k) s)
      \<lparr>wq_depth := wq_depth s + 1, wq_queue := wq_queue s @ [k]\<rparr> else count_drop s)"
    by (rule module_chain)
  moreover have "set_task T Dropping ?p = set_task T Dropping s" by (simp add: wq_ops)
  then have "(module_step os)\<^sup>*\<^sup>* ?p (count_drop s)"
    using module_step.no_memory [OF p, of os] dropping_run [OF assms, of os] by (metis module_chain)
  ultimately show ?thesis by simp
qed

lemma enqueue_run:
  assumes "Idle \<in># wq_tasks s"
  shows "\<exists>u. call_step s u \<and> (module_step os)\<^sup>*\<^sup>* u (provfs_enqueue_stamp alloc_ok queue_ok args s)"
proof -
  obtain T where T: "wq_tasks s = add_mset Idle T" using assms by (metis multi_member_split)
  then have T': "wq_tasks (begin_call s) = add_mset Idle T" by (simp add: begin_call_def)
  show ?thesis
  proof (cases "wq_up s \<and> args \<noteq> None")
    case False
    then have "call_step s (set_task T Dropping (begin_call s))" by (intro call_step.refuse [OF T, of args]) blast
    moreover have "provfs_enqueue_stamp alloc_ok queue_ok args s = count_drop (begin_call s)"
      using False by (auto simp: provfs_enqueue_stamp_def Let_def begin_call_def split: option.split)
    ultimately show ?thesis using dropping_run [OF T', of os] by metis
  next
    case True
    then obtain k where up: "wq_up s" and k: "args = Some k" by blast
    let ?c = "set_task T (Called k) (begin_call s)"
    let ?d = "set_task T (Saw_Depth k (wq_depth s)) (begin_call s)"
    have c: "wq_tasks ?c = add_mset (Called k) T" and d: "wq_tasks ?d = add_mset (Saw_Depth k (wq_depth s)) T"
      by (simp_all add: wq_ops)
    have cd: "module_step os ?c ?d"
      using module_step.read_depth [OF c, of os] by (simp add: set_task_twice begin_call_def)
    have "module_step os ?d (set_task T (if wq_max s \<le> wq_depth s then Dropping else Passed k) (begin_call s))"
      using module_step.compare_max [OF d, of os] by (simp add: set_task_twice begin_call_def)
    moreover have "(module_step os)\<^sup>*\<^sup>* (set_task T (if wq_max s \<le> wq_depth s then Dropping else Passed k) (begin_call s))
        (provfs_enqueue_stamp alloc_ok queue_ok args s)"
      using passed_run [OF T', of os k alloc_ok queue_ok] dropping_run [OF T', of os] up k
      by (auto simp: provfs_enqueue_stamp_def Let_def wq_ops)
    ultimately have "(module_step os)\<^sup>*\<^sup>* ?c (provfs_enqueue_stamp alloc_ok queue_ok args s)"
      by (intro module_chain [OF cd]) (rule module_chain)
    with call_step.call [OF T up, of k] show ?thesis by blast
  qed
qed

lemma enqueue_wq_run:
  "Idle \<in># wq_tasks s \<Longrightarrow> (wq_step os M)\<^sup>*\<^sup>* s (provfs_enqueue_stamp alloc_ok queue_ok args s)"
  using enqueue_run [of s os alloc_ok queue_ok args] by (blast intro: wq_chain wq_step.called module_runs)

text \<open>
  C22. The step relation and the code agree on an uninterrupted call: whatever the arguments, the
  allocation and the work queue answer, one call step and the module's steps for that task lead to
  the result of \<^verbatim>\<open>provfs_enqueue_stamp\<close>, with the task back outside. So a whole run of the hook is a run
  of the step relation too.
\<close>

theorem enqueue_is_a_run:
  assumes "Idle \<in># wq_tasks s"
  shows "(\<exists>u. call_step s u \<and> (module_step os)\<^sup>*\<^sup>* u (provfs_enqueue_stamp alloc_ok queue_ok args s)) \<and>
    (wq_step os M)\<^sup>*\<^sup>* s (provfs_enqueue_stamp alloc_ok queue_ok args s) \<and>
    (wq_step os M)\<^sup>*\<^sup>* s (release_hook alloc_ok queue_ok skipbuf tk rl s)"
  using enqueue_run [OF assms, of os alloc_ok queue_ok args] enqueue_wq_run [OF assms, of os M alloc_ok queue_ok]
  by (auto simp: release_hook_def split: option.split)

theorem enqueue_is_a_run_witness:
  "\<exists>t. (wq_step mem_os provfs_queue_max_max)\<^sup>*\<^sup>* demo_wq t \<and> wq_queue t = [demo_work] \<and> wq_depth t = 1"
proof -
  have "Idle \<in># wq_tasks demo_wq" by (simp add: demo_wq_def)
  from enqueue_is_a_run [OF this, of mem_os True True "Some demo_work" provfs_queue_max_max]
  have "(wq_step mem_os provfs_queue_max_max)\<^sup>*\<^sup>* demo_wq (provfs_enqueue_stamp True True (Some demo_work) demo_wq)"
    by blast
  then show ?thesis
    by (intro exI conjI, assumption)
      (simp_all add: provfs_enqueue_stamp_def Let_def wq_ops demo_wq_def provfs_queue_max_default_def)
qed

text \<open>Without a work queue a task gets no further than the label \<^verbatim>\<open>drop\<close>.\<close>

definition idle_or_dropping :: "'w wq \<Rightarrow> bool" where
  "idle_or_dropping s \<longleftrightarrow> set_mset (wq_tasks s) \<subseteq> {Idle, Dropping} \<and> wq_queue s = [] \<and> wq_workers s = {#}"

lemmas without_queue = idle_or_dropping_def wq_ops

lemma without_queue_module:
  assumes "module_step os s t" and "\<not> wq_up s" and "idle_or_dropping s"
  shows "\<not> wq_up t \<and> idle_or_dropping t \<and> wq_depth t = wq_depth s \<and> wq_refs t = wq_refs s \<and> wq_done t = wq_done s \<and>
    wq_calls t - wq_dropped t - count_if busy (wq_tasks t) = wq_calls s - wq_dropped s - count_if busy (wq_tasks s)"
  using assms(2,3) by (rule_tac module_stepE [OF assms(1)]) (simp_all add: without_queue)

lemma without_queue_call:
  assumes "call_step s t" and "\<not> wq_up s" and "idle_or_dropping s"
  shows "\<not> wq_up t \<and> idle_or_dropping t \<and> wq_depth t = wq_depth s \<and> wq_refs t = wq_refs s \<and> wq_done t = wq_done s \<and>
    wq_calls t - wq_dropped t - count_if busy (wq_tasks t) = wq_calls s - wq_dropped s - count_if busy (wq_tasks s)"
  using assms(2,3) by (rule_tac call_stepE [OF assms(1)]) (simp_all add: without_queue)

lemma without_queue_step:
  assumes "wq_step os M s t" and "\<not> wq_up s" and "idle_or_dropping s"
  shows "\<not> wq_up t \<and> idle_or_dropping t \<and> wq_depth t = wq_depth s \<and> wq_refs t = wq_refs s \<and> wq_done t = wq_done s \<and>
    wq_calls t - wq_dropped t - count_if busy (wq_tasks t) = wq_calls s - wq_dropped s - count_if busy (wq_tasks s)"
  using assms(1)
proof cases
  case module
  then show ?thesis using assms(2,3) by (rule without_queue_module)
next
  case called
  then show ?thesis using assms(2,3) by (rule without_queue_call)
qed (use assms(2,3) in \<open>simp_all add: without_queue\<close>)

text \<open>
  C34. When the work queue cannot be allocated at boot, initialisation reports the error and stamping
  is off, and nothing else breaks: in every later state each call of the still registered hook has
  been counted as dropped, or is about to be, no reference is held and no item was ever made.
\<close>

theorem init_failure_disables_stamping:
  assumes "wq_init n s" and "provfs_init False register_ok s = (ret, s0)" and "(wq_step os M)\<^sup>*\<^sup>* s0 t"
  shows "ret = - ENOMEM \<and> wq_calls t = wq_dropped t + count_if busy (wq_tasks t) \<and>
    (\<forall>x \<in># wq_tasks t. x = Idle \<or> x = Dropping) \<and> wq_depth t = 0 \<and> (\<forall>d. wq_refs t d = 0) \<and>
    accepted t = {#} \<and> wq_queue t = [] \<and> wq_workers t = {#} \<and>
    ((\<forall>x \<in># wq_tasks t. x = Idle) \<longrightarrow> wq_dropped t = wq_calls t \<and> quiet t)"
proof -
  have s0: "ret = - ENOMEM" "s0 = s\<lparr>wq_up := False\<rparr>"
    using assms(2) by (auto simp: provfs_init_def provfs_work_init_def)
  have inv: "\<not> wq_up t \<and> idle_or_dropping t \<and> wq_depth t = 0 \<and> (\<forall>d. wq_refs t d = 0) \<and> wq_done t = {#} \<and>
      wq_calls t - wq_dropped t - count_if busy (wq_tasks t) = 0"
    using assms(3)
  proof (induction rule: rtranclp_induct)
    case base
    with assms(1) show ?case by (auto simp: s0 wq_init_def idle_or_dropping_def count_if_idle)
  next
    case (step t u)
    with without_queue_step [OF step(2)] show ?case by auto
  qed
  have "count_if busy (wq_tasks t) = 0" if "\<forall>x \<in># wq_tasks t. x = Idle"
    using that by (simp add: count_if_def filter_mset_eq_conv)
  with s0 inv show ?thesis by (auto simp: accepted_def quiet_def idle_or_dropping_def)
qed

theorem init_failure_disables_stamping_witness:
  "\<exists>s0 t. provfs_init False True demo_wq = (- 12, s0) \<and> (wq_step mem_os provfs_queue_max_max)\<^sup>*\<^sup>* s0 t \<and>
     wq_calls t = 1 \<and> wq_dropped t = 1"
proof -
  let ?s0 = "demo_wq\<lparr>wq_up := False\<rparr>"
  let ?t = "provfs_enqueue_stamp True True None ?s0"
  have i: "provfs_init False True demo_wq = (- ENOMEM, ?s0)"
    by (simp add: provfs_init_def provfs_work_init_def)
  have tasks: "wq_tasks ?s0 = add_mset Idle {#Idle#}" by (simp add: demo_wq_def)
  then have "wq_tasks (begin_call ?s0) = add_mset Idle {#Idle#}" by (simp add: begin_call_def)
  from dropping_run [OF this, of mem_os]
  have "(module_step mem_os)\<^sup>*\<^sup>* (set_task {#Idle#} Dropping (begin_call ?s0)) ?t"
    by (simp add: provfs_enqueue_stamp_def)
  from wq_chain [OF wq_step.called [OF call_step.refuse [OF tasks, of None]] module_runs [OF this]]
  have steps: "(wq_step mem_os provfs_queue_max_max)\<^sup>*\<^sup>* ?s0 ?t" by simp
  have "wq_calls ?t = 1" "\<forall>x \<in># wq_tasks ?t. x = Idle"
    by (simp_all add: provfs_enqueue_stamp_def wq_ops demo_wq_def)
  with i steps init_failure_disables_stamping [OF demo_wq_init i steps] show ?thesis
    by (auto simp: ENOMEM_def)
qed

lemma module_two: "module_step os s t \<Longrightarrow> module_step os t u \<Longrightarrow> (module_step os)\<^sup>*\<^sup>* s u"
  by (rule rtranclp.rtrancl_into_rtrancl) (rule r_into_rtranclp)

lemma worker_runs:
  assumes "wq_workers s = {#Writing k1 xs, Writing k2 ys#} + W" and "wk_dentry k1 = d" and "wk_dentry k2 = d"
    and "zs \<in> shuffles xs ys"
  shows "(module_step os)\<^sup>*\<^sup>* s (s\<lparr>wq_workers := {#Writing k1 [], Writing k2 []#} + W,
    wq_world := write_all os d zs (wq_world s)\<rparr>)"
  using assms
proof (induction xs ys arbitrary: s zs rule: shuffles.induct)
  case (1 ys)
  then show ?case
  proof (induction ys arbitrary: s zs)
    case Nil
    then show ?case by (cases s) simp
  next
    case (Cons y ys)
    obtain key v where y: "y = (key, v)" by (cases y)
    let ?t = "s\<lparr>wq_workers := {#Writing k1 [], Writing k2 ys#} + W,
      wq_world := snd (os_xattr_set os d key v (wq_world s))\<rparr>"
    have "module_step os s ?t"
      using Cons.prems module_step.work_writes [of s k2 key v ys "{#Writing k1 []#} + W" os] y
      by (simp add: add_mset_commute)
    with Cons.IH [of ?t ys] Cons.prems y show ?case by (auto intro: module_chain)
  qed
next
  case (2 xs)
  then show ?case
  proof (induction xs arbitrary: s zs)
    case Nil
    then show ?case by (cases s) simp
  next
    case (Cons x xs)
    obtain key v where x: "x = (key, v)" by (cases x)
    let ?t = "s\<lparr>wq_workers := {#Writing k1 xs, Writing k2 []#} + W,
      wq_world := snd (os_xattr_set os d key v (wq_world s))\<rparr>"
    have "module_step os s ?t"
      using Cons.prems module_step.work_writes [of s k1 key v xs "{#Writing k2 []#} + W" os] x by simp
    with Cons.IH [of ?t xs] Cons.prems x show ?case by (auto intro: module_chain)
  qed
next
  case (3 x xs y ys)
  obtain kx vx ky vy where xy: "x = (kx, vx)" "y = (ky, vy)" by (cases x, cases y)
  from 3(6) consider z where "zs = x # z" "z \<in> shuffles xs (y # ys)" | z where "zs = y # z" "z \<in> shuffles (x # xs) ys"
    by auto
  then show ?case
  proof cases
    case 1
    let ?t = "s\<lparr>wq_workers := {#Writing k1 xs, Writing k2 (y # ys)#} + W,
      wq_world := snd (os_xattr_set os d kx vx (wq_world s))\<rparr>"
    have "module_step os s ?t"
      using 3(3,4) module_step.work_writes [of s k1 kx vx xs "{#Writing k2 (y # ys)#} + W" os] xy by simp
    with "3.IH"(1) [of ?t z] 3(4,5) 1 xy show ?thesis by (auto intro: module_chain)
  next
    case 2
    let ?t = "s\<lparr>wq_workers := {#Writing k1 (x # xs), Writing k2 ys#} + W,
      wq_world := snd (os_xattr_set os d ky vy (wq_world s))\<rparr>"
    have "module_step os s ?t"
      using 3(3,5) module_step.work_writes [of s k2 ky vy ys "{#Writing k1 (x # xs)#} + W" os] xy
      by (simp add: add_mset_commute)
    with "3.IH"(2) [of ?t z] 3(4,5) 2 xy show ?thesis by (auto intro: module_chain)
  qed
qed

lemma workers_end:
  assumes "wq_workers s = {#Writing k1 [], Writing k2 []#} + W"
  shows "\<exists>t. (module_step os)\<^sup>*\<^sup>* s t \<and> wq_queue t = wq_queue s \<and> wq_workers t = W \<and>
    wq_done t = {#k1, k2#} + wq_done s \<and> wq_world t = wq_world s"
proof -
  have one: "\<exists>t. (module_step os)\<^sup>*\<^sup>* s t \<and> wq_queue t = wq_queue s \<and> wq_workers t = W \<and>
      wq_done t = add_mset k (wq_done s) \<and> wq_world t = wq_world s"
    if "wq_workers s = add_mset (Writing k []) W" for s :: "'a wq" and k W
  proof -
    let ?t = "dput (wk_dentry k) (s\<lparr>wq_workers := add_mset (Released k) W\<rparr>)"
    have "wq_workers ?t = add_mset (Released k) W" by (simp add: wq_ops)
    from module_two [OF module_step.work_releases [OF that] module_step.work_ends [OF this]]
    show ?thesis by (intro exI conjI, assumption) (simp_all add: wq_ops)
  qed
  obtain u where u: "(module_step os)\<^sup>*\<^sup>* s u" "wq_queue u = wq_queue s" "wq_workers u = add_mset (Writing k1 []) W"
    "wq_done u = add_mset k2 (wq_done s)" "wq_world u = wq_world s"
    using one [of s k2 "add_mset (Writing k1 []) W"] assms by (auto simp: add_mset_commute)
  obtain t where "(module_step os)\<^sup>*\<^sup>* u t" "wq_queue t = wq_queue u" "wq_workers t = W"
    "wq_done t = add_mset k1 (wq_done u)" "wq_world t = wq_world u"
    using one [OF u(3)] by blast
  with u show ?thesis by (intro exI [of _ t]) (auto intro: rtranclp_trans)
qed

text \<open>
  C24. Two stamps of one file are not atomic towards each other. When two items for the same dentry
  follow each other in the queue, the module alone can have two workers take them, and every
  interleaving of their attribute writes is the effect of such a run, in which nothing but these two
  workers changes the world; after it both items are done. So the file can end with the session of
  one close and the timestamp, tool, turn or intent of the other.
\<close>

theorem stamps_interleave:
  assumes "wq_queue s = k1 # k2 # q" and "wk_dentry k1 = d" and "wk_dentry k2 = d"
    and "zs \<in> shuffles (stamp_writes k1) (stamp_writes k2)"
  shows "\<exists>t. (module_step os)\<^sup>*\<^sup>* s t \<and> wq_queue t = q \<and> wq_workers t = wq_workers s \<and>
    wq_done t = {#k1, k2#} + wq_done s \<and> wq_world t = write_all os d zs (wq_world s)"
proof -
  let ?u = "s\<lparr>wq_queue := k2 # q, wq_workers := add_mset (Writing k1 (stamp_writes k1)) (wq_workers s)\<rparr>"
  let ?v = "s\<lparr>wq_queue := q,
    wq_workers := {#Writing k1 (stamp_writes k1), Writing k2 (stamp_writes k2)#} + wq_workers s\<rparr>"
  have su: "module_step os s ?u" by (rule module_step.work_starts [OF assms(1)])
  have uv: "module_step os ?u ?v"
    using module_step.work_starts [of ?u k2 q os] by (simp add: add_mset_commute)
  obtain x where x: "(module_step os)\<^sup>*\<^sup>* ?v x" "wq_queue x = q"
      "wq_workers x = {#Writing k1 [], Writing k2 []#} + wq_workers s" "wq_done x = wq_done s"
      "wq_world x = write_all os d zs (wq_world s)"
    using worker_runs [of ?v k1 "stamp_writes k1" k2 "stamp_writes k2" "wq_workers s" d zs os] assms(2-4) by force
  obtain t where t: "(module_step os)\<^sup>*\<^sup>* x t" "wq_queue t = wq_queue x" "wq_workers t = wq_workers s"
      "wq_done t = {#k1, k2#} + wq_done x" "wq_world t = wq_world x"
    using workers_end [OF x(3)] by blast
  have "(module_step os)\<^sup>*\<^sup>* s t"
    using module_chain [OF su module_chain [OF uv rtranclp_trans [OF x(1) t(1)]]] .
  with x t show ?thesis by auto
qed

definition second_work :: work where
  "second_work = make_work ''/f'' ''pid:8;uid:0'' ''200'' [] [] []"

definition demo_queued :: "mem wq" where
  "demo_queued = demo_wq\<lparr>wq_depth := 2, wq_calls := 2, wq_queue := [demo_work, second_work],
     wq_world := mem_files [(''/f'', [])]\<rparr>"

theorem stamps_interleave_witness:
  "\<exists>t. (module_step mem_os)\<^sup>*\<^sup>* demo_queued t \<and> wq_done t = {#demo_work, second_work#} \<and>
     attr mem_os ''/f'' (wq_world t) KEY_SESSION = Inr (Some ''pid:8;uid:0'') \<and>
     attr mem_os ''/f'' (wq_world t) KEY_TS = Inr (Some ''100'') \<and>
     attr mem_os ''/f'' (wq_world t) KEY_TOOL = Inr (Some ''bash'')"
proof -
  let ?zs = "[(KEY_SESSION, ''pid:7;uid:0''), (KEY_SESSION, ''pid:8;uid:0''), (KEY_TS, ''200''), (KEY_TS, ''100''),
    (KEY_TOOL, ''bash''), (KEY_TURN, ''3'')]"
  have d: "wk_dentry demo_work = ''/f''" "wk_dentry second_work = ''/f''"
    by (simp_all add: demo_work_def second_work_def make_work_def)
  have w: "stamp_writes demo_work =
      [(KEY_SESSION, ''pid:7;uid:0''), (KEY_TS, ''100''), (KEY_TOOL, ''bash''), (KEY_TURN, ''3'')]"
    "stamp_writes second_work = [(KEY_SESSION, ''pid:8;uid:0''), (KEY_TS, ''200'')]"
    by code_simp+
  have zs: "?zs \<in> shuffles (stamp_writes demo_work) (stamp_writes second_work)"
    unfolding w by (simp add: Cons_in_shuffles_iff)
  have q: "wq_queue demo_queued = [demo_work, second_work]" by (simp add: demo_queued_def)
  obtain t where t: "(module_step mem_os)\<^sup>*\<^sup>* demo_queued t"
      "wq_done t = {#demo_work, second_work#}" "wq_world t = write_all mem_os ''/f'' ?zs (mem_files [(''/f'', [])])"
    using stamps_interleave [OF q d zs, of mem_os]
    by (auto simp: demo_queued_def demo_wq_def)
  have "mem_node (mem_files [(''/f'', [])]) ''/f'' \<noteq> None" by (simp add: mem_node_def mem_files_def)
  from write_all_attr [OF mem_xattr_backend mem_settable this, of ?zs] t show ?thesis
    by (intro exI [of _ t]) simp
qed

end
