(* ===== verification/Inode_Table.thy ===== *)
theory Inode_Table
  imports Unix_Path
begin

text \<open>
  \<^verbatim>\<open>InodeTable\<close> of \<^verbatim>\<open>src/fs.rs\<close>: the two hash maps between FUSE inode numbers and backing paths.
  The forward map stores the path as it was first interned; the reverse map is keyed by path
  equality, that is by \<open>components\<close>. Inode numbers are 64-bit words and \<^verbatim>\<open>self.next += 1\<close> wraps, as in
  a release build; \<open>table_room t n\<close> says that \<open>n\<close> more numbers can be handed out before that
  happens.

  \<open>path_table\<close> is the interface the file system relies on; the lemmas about interning a whole
  directory listing are proved in it once.
\<close>

record inode_table =
  fwd :: "u64 \<rightharpoonup> path"
  rev_map :: "path_key \<rightharpoonup> u64"
  next_ino :: u64

definition ROOT_INO :: u64 where
  "ROOT_INO = 1"

definition with_root :: "path \<Rightarrow> inode_table" where
  "with_root root =
     \<lparr>fwd = Map.empty(ROOT_INO \<mapsto> root), rev_map = Map.empty(components root \<mapsto> ROOT_INO),
      next_ino = ROOT_INO + 1\<rparr>"

definition path_of :: "inode_table \<Rightarrow> u64 \<Rightarrow> path option" where
  "path_of t ino = fwd t ino"

definition intern :: "inode_table \<Rightarrow> path \<Rightarrow> u64 \<times> inode_table" where
  "intern t p =
     (case rev_map t (components p) of
        Some ino \<Rightarrow> (ino, t)
      | None \<Rightarrow>
          (let ino = next_ino t
           in (ino, t\<lparr>next_ino := next_ino t + 1, fwd := (fwd t)(ino \<mapsto> p),
                      rev_map := (rev_map t)(components p \<mapsto> ino)\<rparr>)))"

definition forget_path :: "inode_table \<Rightarrow> path \<Rightarrow> inode_table" where
  "forget_path t p =
     (case rev_map t (components p) of
        Some ino \<Rightarrow> t\<lparr>rev_map := (rev_map t)(components p := None), fwd := (fwd t)(ino := None)\<rparr>
      | None \<Rightarrow> t)"

lemmas table_defs [op_defs] = with_root_def path_of_def intern_def forget_path_def

section \<open>The interface\<close>

locale path_table =
  fixes paths :: "'t \<Rightarrow> 'i \<Rightarrow> path option" and add :: "'t \<Rightarrow> path \<Rightarrow> 'i \<times> 't"
    and forget :: "'t \<Rightarrow> path \<Rightarrow> 't" and wf :: "'t \<Rightarrow> bool" and room :: "'t \<Rightarrow> nat \<Rightarrow> bool"
  assumes add_maps: "wf t \<Longrightarrow> room t (Suc n) \<Longrightarrow> add t p = (i, t') \<Longrightarrow>
        \<exists>q. paths t' i = Some q \<and> components q = components p"
    and add_keeps: "wf t \<Longrightarrow> room t (Suc n) \<Longrightarrow> add t p = (i, t') \<Longrightarrow> paths t j = Some q \<Longrightarrow> paths t' j = Some q"
    and add_known: "wf t \<Longrightarrow> paths t j = Some q \<Longrightarrow> components q = components p \<Longrightarrow> add t p = (j, t)"
    and add_wf: "wf t \<Longrightarrow> room t (Suc n) \<Longrightarrow> wf (snd (add t p))"
    and add_room: "room t (Suc n) \<Longrightarrow> room (snd (add t p)) n"
    and room_less: "room t (Suc n) \<Longrightarrow> room t n"
    and forget_wf: "wf t \<Longrightarrow> wf (forget t p)"
    and forget_paths: "wf t \<Longrightarrow> paths (forget t p) j =
        (case paths t j of None \<Rightarrow> None | Some q \<Rightarrow> if components q = components p then None else Some q)"
begin

text \<open>Interning a list of paths from left to right.\<close>

fun add_all :: "'t \<Rightarrow> path list \<Rightarrow> 'i list \<times> 't" where
  "add_all t [] = ([], t)"
| "add_all t (p # ps) = (let (i, t') = add t p; (is, t'') = add_all t' ps in (i # is, t''))"

lemma add_all_Cons:
  "add_all t (p # ps) =
     (fst (add t p) # fst (add_all (snd (add t p)) ps), snd (add_all (snd (add t p)) ps))"
  by (simp add: case_prod_beta)

declare add_all.simps(2) [simp del]

lemma add_all_wf: "wf t \<Longrightarrow> room t (length ps) \<Longrightarrow> wf (snd (add_all t ps))"
proof (induction ps arbitrary: t)
  case (Cons p ps)
  then show ?case
    using add_wf [of t "length ps" p] add_room [of t "length ps" p] by (simp add: add_all_Cons)
qed simp

lemma add_all_keeps:
  "wf t \<Longrightarrow> room t (length ps) \<Longrightarrow> paths t j = Some q \<Longrightarrow> paths (snd (add_all t ps)) j = Some q"
proof (induction ps arbitrary: t)
  case (Cons p ps)
  obtain i t' where a: "add t p = (i, t')" by (cases "add t p")
  with Cons.prems have "wf t'" "room t' (length ps)" "paths t' j = Some q"
    using add_wf [of t "length ps" p] add_room [of t "length ps" p]
      add_keeps [of t "length ps" p i t' j q] by simp_all
  with Cons.IH a show ?case by (simp add: add_all_Cons)
qed simp

lemma add_all_maps:
  "wf t \<Longrightarrow> room t (length ps) \<Longrightarrow>
     list_all2 (\<lambda>i p. \<exists>q. paths (snd (add_all t ps)) i = Some q \<and> components q = components p)
       (fst (add_all t ps)) ps"
proof (induction ps arbitrary: t)
  case (Cons p ps)
  obtain i t' where a: "add t p = (i, t')" by (cases "add t p")
  with Cons.prems have t': "wf t'" "room t' (length ps)"
    using add_wf [of t "length ps" p] add_room [of t "length ps" p] by simp_all
  obtain q where "paths t' i = Some q" "components q = components p"
    using add_maps [of t "length ps" p i t'] Cons.prems a by auto
  with add_all_keeps [OF t'] Cons.IH [OF t'] a show ?case by (auto simp: add_all_Cons)
qed simp

text \<open>Interning paths that are all known changes nothing and gives the known numbers.\<close>

lemma add_all_known:
  assumes "wf t" and "list_all2 (\<lambda>i p. \<exists>q. paths t i = Some q \<and> components q = components p) is ps"
  shows "add_all t ps = (is, t)"
  using assms(2) by (induction rule: list_all2_induct) (auto simp: add_all_Cons add_known [OF assms(1)])

lemma add_all_again:
  assumes "wf t" and "room t (length ps)" and "add_all t ps = (is, t')"
  shows "add_all t' ps = (is, t')"
  using add_all_known [of t' "is" ps] add_all_maps [OF assms(1,2)] add_all_wf [OF assms(1,2)] assms(3)
  by simp

end

section \<open>The invariant\<close>

text \<open>The two maps are inverse to each other, and every number handed out is below the next one.\<close>

definition table_wf :: "inode_table \<Rightarrow> bool" where
  "table_wf t \<longleftrightarrow>
     (\<forall>i p. fwd t i = Some p \<longrightarrow> rev_map t (components p) = Some i) \<and>
     (\<forall>k i. rev_map t k = Some i \<longrightarrow> (\<exists>p. fwd t i = Some p \<and> components p = k)) \<and>
     (\<forall>i. fwd t i \<noteq> None \<longrightarrow> i < next_ino t)"

definition table_room :: "inode_table \<Rightarrow> nat \<Rightarrow> bool" where
  "table_room t n \<longleftrightarrow> unat (next_ino t) + n < 2 ^ 64"

lemma table_wf_fwd: "table_wf t \<Longrightarrow> fwd t i = Some p \<Longrightarrow> rev_map t (components p) = Some i"
  by (simp add: table_wf_def)

lemma table_wf_rev:
  assumes "table_wf t" and "rev_map t k = Some i"
  obtains p where "fwd t i = Some p" "components p = k"
  using assms unfolding table_wf_def by blast

lemma table_wf_less: "table_wf t \<Longrightarrow> fwd t i = Some p \<Longrightarrow> i < next_ino t"
  by (simp add: table_wf_def)

lemma table_wf_inj:
  "table_wf t \<Longrightarrow> fwd t i = Some p \<Longrightarrow> fwd t j = Some q \<Longrightarrow> components p = components q \<Longrightarrow> i = j"
  by (metis option.inject table_wf_fwd)

lemma table_wfI:
  assumes "\<And>i p. fwd t i = Some p \<Longrightarrow> rev_map t (components p) = Some i \<and> i < next_ino t"
    and "\<And>k i. rev_map t k = Some i \<Longrightarrow> \<exists>p. fwd t i = Some p \<and> components p = k"
  shows "table_wf t"
  using assms by (auto simp: table_wf_def)

lemma intern_known: "rev_map t (components p) = Some i \<Longrightarrow> intern t p = (i, t)"
  by (simp add: intern_def)

lemma intern_new:
  "rev_map t (components p) = None \<Longrightarrow>
     intern t p = (next_ino t, t\<lparr>next_ino := next_ino t + 1, fwd := (fwd t)(next_ino t \<mapsto> p),
                                rev_map := (rev_map t)(components p \<mapsto> next_ino t)\<rparr>)"
  by (simp add: intern_def Let_def)

lemma next_fresh: "table_wf t \<Longrightarrow> fwd t (next_ino t) = None"
  using table_wf_less [of t "next_ino t"] by (cases "fwd t (next_ino t)") auto

lemma next_room: "table_room t (Suc n) \<Longrightarrow> unat (next_ino t + 1) = unat (next_ino t) + 1"
  unfolding table_room_def by (subst unat_word_ariths(1)) simp

lemma intern_room: "table_room t (Suc n) \<Longrightarrow> table_room (snd (intern t p)) n"
  using next_room [of t n]
  by (cases "rev_map t (components p)") (auto simp: intern_known intern_new table_room_def)

lemma intern_wf:
  assumes "table_wf t" and "table_room t (Suc n)"
  shows "table_wf (snd (intern t p))"
proof (cases "rev_map t (components p)")
  case None
  have less: "i < next_ino t + 1" if "i = next_ino t \<or> i < next_ino t" for i
    using that next_room [OF assms(2)] by (auto simp: word_less_nat_alt)
  have other: "components q \<noteq> components p" if "fwd t i = Some q" for i q
    using that None table_wf_fwd [OF assms(1)] by fastforce
  have "i \<noteq> next_ino t" if "rev_map t k = Some i" for k i
    using that next_fresh [OF assms(1)] by (auto elim: table_wf_rev [OF assms(1)])
  with less other None show ?thesis
    by (intro table_wfI)
      (auto simp: intern_new table_wf_fwd [OF assms(1)] table_wf_less [OF assms(1)]
        elim: table_wf_rev [OF assms(1)] split: if_splits)
qed (use assms(1) in \<open>simp add: intern_known\<close>)

lemma forget_table_wf:
  assumes "table_wf t"
  shows "table_wf (forget_path t p)"
proof (cases "rev_map t (components p)")
  case (Some ino)
  have "components q \<noteq> components p" if "fwd t i = Some q" "i \<noteq> ino" for i q
    using that Some table_wf_fwd [OF assms, of i q] by auto
  moreover have "i \<noteq> ino" if "rev_map t k = Some i" "k \<noteq> components p" for k i
    using that Some by (metis assms option.inject table_wf_rev)
  ultimately show ?thesis
    using Some table_wf_fwd [OF assms] table_wf_less [OF assms]
    by (intro table_wfI) (auto simp: forget_path_def elim: table_wf_rev [OF assms] split: if_splits)
qed (use assms in \<open>simp add: forget_path_def\<close>)

lemma forget_path_paths:
  assumes "table_wf t"
  shows "path_of (forget_path t p) j =
    (case path_of t j of None \<Rightarrow> None | Some q \<Rightarrow> if components q = components p then None else Some q)"
proof (cases "rev_map t (components p)")
  case None
  then show ?thesis
    using table_wf_fwd [OF assms, of j] by (auto simp: path_of_def forget_path_def split: option.splits)
next
  case (Some ino)
  obtain r where "fwd t ino = Some r" "components r = components p"
    using Some by (rule table_wf_rev [OF assms])
  then show ?thesis
    using Some table_wf_fwd [OF assms, of j]
    by (auto simp: path_of_def forget_path_def split: option.splits)
qed

interpretation itab: path_table path_of intern forget_path table_wf table_room
proof
  fix t n p i t' j q
  assume wf: "table_wf t"
  show "\<exists>q. path_of t' i = Some q \<and> components q = components p" if "intern t p = (i, t')"
    using that wf
    by (cases "rev_map t (components p)")
      (auto simp: intern_known intern_new path_of_def elim: table_wf_rev)
  show "path_of t' j = Some q" if "table_room t (Suc n)" "intern t p = (i, t')" "path_of t j = Some q"
    using that next_fresh [OF wf]
    by (cases "rev_map t (components p)") (auto simp: intern_known intern_new path_of_def)
  show "intern t p = (j, t)" if "path_of t j = Some q" "components q = components p"
    using that table_wf_fwd [OF wf, of j q] by (auto simp: intern_known path_of_def)
  show "table_wf (snd (intern t p))" if "table_room t (Suc n)"
    by (rule intern_wf [OF wf that])
  show "table_wf (forget_path t p)" by (rule forget_table_wf [OF wf])
  show "path_of (forget_path t p) j =
      (case path_of t j of None \<Rightarrow> None | Some q \<Rightarrow> if components q = components p then None else Some q)"
    by (rule forget_path_paths [OF wf])
next
  fix t n p
  show "table_room t (Suc n) \<Longrightarrow> table_room (snd (intern t p)) n" by (rule intern_room)
  show "table_room t (Suc n) \<Longrightarrow> table_room t n" by (simp add: table_room_def)
qed

lemma with_root_wf: "table_wf (with_root root)"
  by (auto simp: table_wf_def with_root_def ROOT_INO_def split: if_splits)


section \<open>Sequences of operations\<close>

datatype table_op = Intern path | Forget path

fun table_step :: "inode_table \<Rightarrow> table_op \<Rightarrow> inode_table" where
  "table_step t (Intern p) = snd (intern t p)"
| "table_step t (Forget p) = forget_path t p"

definition table_run :: "inode_table \<Rightarrow> table_op list \<Rightarrow> inode_table" where
  "table_run t ops = foldl table_step t ops"

lemma forget_next [simp]: "next_ino (forget_path t p) = next_ino t"
  by (simp add: forget_path_def split: option.splits)

lemma forget_room [simp]: "table_room (forget_path t p) n = table_room t n"
  by (simp add: table_room_def)

lemma table_step_wf:
  "table_wf t \<Longrightarrow> table_room t (Suc n) \<Longrightarrow> table_wf (table_step t opn) \<and> table_room (table_step t opn) n"
  by (cases opn) (auto simp: intern_wf intern_room itab.forget_wf itab.room_less)

lemma table_run_wf:
  "table_wf t \<Longrightarrow> table_room t (length ops) \<Longrightarrow> table_wf (table_run t ops)"
  by (induction ops arbitrary: t) (auto simp: table_run_def dest: table_step_wf)

lemma intern_next_le:
  "table_room t (Suc n) \<Longrightarrow> next_ino t \<le> next_ino (snd (intern t p))"
  using next_room [of t n]
  by (cases "rev_map t (components p)") (auto simp: intern_known intern_new word_le_nat_alt)

lemma table_step_dead:
  assumes "table_wf t" and "table_room t (Suc n)" and "i < next_ino t" and "path_of t i = None"
  shows "i < next_ino (table_step t opn) \<and> path_of (table_step t opn) i = None"
proof (cases opn)
  case (Intern p)
  have "path_of (snd (intern t p)) i = None"
    using assms(3,4) by (cases "rev_map t (components p)") (auto simp: intern_known intern_new path_of_def)
  with Intern assms(3) intern_next_le [OF assms(2)] show ?thesis
    by (auto intro: order.strict_trans2)
next
  case (Forget p)
  with assms show ?thesis by (simp add: itab.forget_paths)
qed

section \<open>Properties\<close>

text \<open>
  C27. Starting from a fresh table and after any sequence of \<^verbatim>\<open>intern\<close> and \<^verbatim>\<open>forget_path\<close> calls short
  enough not to exhaust the 64-bit counter, inode numbers and paths correspond one to one: two
  live numbers are equal exactly when their paths have the same components, and interning the
  path of a live number gives that number back and leaves the table as it is.
\<close>

theorem inode_table_bijective:
  assumes "length ops < 2 ^ 64 - 2"
    and "t = table_run (with_root root) ops"
    and "path_of t i = Some p" and "path_of t j = Some q"
  shows "(i = j \<longleftrightarrow> components p = components q) \<and> intern t p = (i, t)"
proof -
  have "table_room (with_root root) (length ops)"
    using assms(1) by (simp add: table_room_def with_root_def ROOT_INO_def)
  then have wf: "table_wf t" unfolding assms(2) by (intro table_run_wf with_root_wf)
  with assms(3,4) show ?thesis
    using table_wf_inj [OF wf, of i p j q] itab.add_known [OF wf assms(3)] by (auto simp: path_of_def)
qed

theorem inode_table_bijective_witness:
  "intern (table_run (with_root ''/s'') [Intern ''/s/a'', Intern ''/s//b/'', Forget ''/s/a'']) ''/s//b/'' =
     (3, table_run (with_root ''/s'') [Intern ''/s/a'', Intern ''/s//b/'', Forget ''/s/a''])"
proof -
  let ?t = "table_run (with_root ''/s'') [Intern ''/s/a'', Intern ''/s//b/'', Forget ''/s/a'']"
  have "path_of ?t 3 = Some ''/s//b/''"
    by (simp add: table_run_def intern_def with_root_def path_of_def forget_path_def ROOT_INO_def
        components_def has_root_def segments_def body_comps_def leading_cur_def junk_def comp_of_def)
  from inode_table_bijective [OF _ refl this this] show ?thesis by simp
qed

text \<open>
  An inode number is never reused: once a number below the counter is free (its path was
  forgotten), no later sequence of calls maps it again. The overlay always reports generation
  0, so a reused number would denote a different file to the kernel.
\<close>

theorem inode_never_reused:
  assumes "table_wf t" and "table_room t (length ops)"
    and "i < next_ino t" and "path_of t i = None"
  shows "path_of (table_run t ops) i = None"
  using assms
proof (induction ops arbitrary: t)
  case (Cons opn ops)
  then have room: "table_room t (Suc (length ops))" by simp
  show ?case
    using Cons.IH [of "table_step t opn"] table_step_wf [OF Cons.prems(1) room]
      table_step_dead [OF Cons.prems(1) room Cons.prems(3,4)]
    by (simp add: table_run_def)
qed (simp add: table_run_def)

theorem inode_never_reused_witness:
  "path_of (table_run (table_run (with_root ''/s'') [Intern ''/s/a'', Forget ''/s/a'']) [Intern ''/s/a'']) 2 = None"
proof -
  let ?t = "table_run (with_root ''/s'') [Intern ''/s/a'', Forget ''/s/a'']"
  have room: "table_room (with_root ''/s'') 2"
    by (simp add: table_room_def with_root_def ROOT_INO_def)
  have wf: "table_wf ?t"
    using room by (intro table_run_wf with_root_wf) (simp add: numeral_2_eq_2)
  have next3: "next_ino ?t = 3" and dead: "path_of ?t 2 = None"
    by (simp_all add: table_run_def intern_def with_root_def path_of_def forget_path_def ROOT_INO_def
        components_def has_root_def segments_def body_comps_def leading_cur_def junk_def comp_of_def)
  have "table_room ?t (length [Intern ''/s/a''])" by (simp add: table_room_def next3)
  from inode_never_reused [OF wf this _ dead] show ?thesis by (simp add: next3)
qed

end
