(* ===== verification/File_Attr.thy ===== *)
theory File_Attr
  imports Os_Interface
begin

text \<open>
  \<^verbatim>\<open>libc_stat_to_attr\<close>, \<^verbatim>\<open>lstat\<close> and \<^verbatim>\<open>io_err_to_errno\<close> of \<^verbatim>\<open>src/fs.rs\<close>: the translation of a \<^verbatim>\<open>libc::stat\<close>
  into the attributes FUSE is answered with. A \<^verbatim>\<open>SystemTime\<close> is a pair of seconds and nanoseconds
  since the epoch. \<^verbatim>\<open>UNIX_EPOCH + Duration::new(..)\<close> panics when the seconds leave the 64-bit range;
  the translation then has no result (\<open>None\<close>).
\<close>

unbundle bit_operations_syntax

datatype file_type =
  Directory | Symlink | BlockDevice | CharDevice | NamedPipe | Socket | RegularFile

type_synonym sys_time = "int \<times> nat"

record file_attr =
  fa_ino :: u64
  fa_size :: u64
  fa_blocks :: u64
  fa_atime :: sys_time
  fa_mtime :: sys_time
  fa_ctime :: sys_time
  fa_crtime :: sys_time
  fa_kind :: file_type
  fa_perm :: "16 word"
  fa_nlink :: u32
  fa_uid :: u32
  fa_gid :: u32
  fa_rdev :: u32
  fa_blksize :: u32
  fa_flags :: u32

definition nanos_per_sec :: nat where
  "nanos_per_sec = 1000000000"

text \<open>The closure \<^verbatim>\<open>mk\<close>: \<^verbatim>\<open>Duration::new\<close> carries whole seconds out of the nanoseconds.\<close>

definition mk_time :: "int \<Rightarrow> int \<Rightarrow> sys_time option" where
  "mk_time secs nanos =
     (let nanos_u32 = (if max nanos 0 < 2 ^ 32 then nat (max nanos 0) else 0)
      in if 0 \<le> secs
         then (let total = secs + int (nanos_u32 div nanos_per_sec)
               in if total \<le> i64_max then Some (total, nanos_u32 mod nanos_per_sec) else None)
         else Some (0, 0))"

definition S_IFMT :: u32 where "S_IFMT = 0xF000"

definition kind_of_mode :: "u32 \<Rightarrow> file_type" where
  "kind_of_mode mode =
     (let f = mode AND S_IFMT
      in if f = 0x4000 then Directory else if f = 0xA000 then Symlink
         else if f = 0x6000 then BlockDevice else if f = 0x2000 then CharDevice
         else if f = 0x1000 then NamedPipe else if f = 0xC000 then Socket else RegularFile)"

definition u64_from_i64 :: "int \<Rightarrow> u64" where
  "u64_from_i64 x = (if 0 \<le> x then of_int x else 0)"

definition u32_from_u64 :: "u64 \<Rightarrow> u32 \<Rightarrow> u32" where
  "u32_from_u64 x dflt = (if unat x < 2 ^ 32 then ucast x else dflt)"

definition libc_stat_to_attr :: "u64 \<Rightarrow> stat \<Rightarrow> file_attr option" where
  "libc_stat_to_attr ino st =
     (case (mk_time (st_atime st) (st_atime_nsec st), mk_time (st_mtime st) (st_mtime_nsec st),
            mk_time (st_ctime st) (st_ctime_nsec st)) of
        (Some atime, Some mtime, Some ctime) \<Rightarrow>
          Some \<lparr>fa_ino = ino,
                fa_size = u64_from_i64 (st_size st),
                fa_blocks = u64_from_i64 (st_blocks st),
                fa_atime = atime, fa_mtime = mtime, fa_ctime = ctime, fa_crtime = ctime,
                fa_kind = kind_of_mode (st_mode st),
                fa_perm = ucast (st_mode st AND 0xFFF),
                fa_nlink = u32_from_u64 (st_nlink st) 1,
                fa_uid = st_uid st, fa_gid = st_gid st,
                fa_rdev = u32_from_u64 (st_rdev st) 0,
                fa_blksize =
                  (if 0 \<le> st_blksize st \<and> st_blksize st < 2 ^ 32 then of_int (st_blksize st) else 4096),
                fa_flags = 0\<rparr>
      | _ \<Rightarrow> None)"

definition has_nul :: "path \<Rightarrow> bool" where
  "has_nul p \<longleftrightarrow> CHR 0x00 \<in> set p"

definition lstat :: "'w os \<Rightarrow> path \<Rightarrow> 'w \<Rightarrow> io_error + stat" where
  "lstat os p w =
     (if has_nul p then Inl Custom
      else case os_lstat os p w of Inl e \<Rightarrow> Inl (Os e) | Inr st \<Rightarrow> Inr st)"

definition io_err_to_errno :: "io_error \<Rightarrow> errno" where
  "io_err_to_errno e = (case raw_os_error e of None \<Rightarrow> EIO | Some n \<Rightarrow> n)"

text \<open>What the kernel guarantees of the time stamps in a \<^verbatim>\<open>stat\<close> buffer.\<close>

definition stat_times_ok :: "stat \<Rightarrow> bool" where
  "stat_times_ok st \<longleftrightarrow>
     list_all (\<lambda>(s, n). s \<le> i64_max \<and> 0 \<le> n \<and> n < int nanos_per_sec)
       [(st_atime st, st_atime_nsec st), (st_mtime st, st_mtime_nsec st), (st_ctime st, st_ctime_nsec st)]"

lemma mk_time_ok:
  "s \<le> i64_max \<Longrightarrow> 0 \<le> n \<Longrightarrow> n < int nanos_per_sec \<Longrightarrow>
     mk_time s n = Some (if 0 \<le> s then (s, nat n) else (0, 0))"
  by (auto simp: mk_time_def Let_def nanos_per_sec_def nat_less_iff)

lemma stat_to_attr_total: "stat_times_ok st \<Longrightarrow> \<exists>a. libc_stat_to_attr ino st = Some a"
  by (auto simp: stat_times_ok_def libc_stat_to_attr_def mk_time_ok)

lemma stat_to_attr_ino: "libc_stat_to_attr ino st = Some a \<Longrightarrow> fa_ino a = ino"
  by (auto simp: libc_stat_to_attr_def split: option.splits)

lemma unat_mode_bits: "unat (ucast (mode AND 0xFFF :: u32) :: 16 word) = unat mode mod 4096"
proof -
  have "mode AND 0xFFF = take_bit 12 mode"
    by (simp add: take_bit_eq_mask mask_eq_exp_minus_1)
  moreover have "unat (take_bit 12 mode) = unat mode mod 4096"
    by (subst unsigned_take_bit_eq) (simp add: take_bit_eq_mod)
  moreover have "unat mode mod 4096 < 65536"
    using mod_less_divisor [of 4096 "unat mode"] by linarith
  ultimately show ?thesis
    by (simp add: unsigned_ucast_eq take_bit_eq_mod)
qed

section \<open>Properties\<close>

text \<open>
  On every \<^verbatim>\<open>stat\<close> the kernel can return, the translation does not panic: it keeps the inode,
  owner and link count, the size and block count, the nine permission and three special bits,
  and the file kind; times before the epoch are shown as the epoch.
\<close>

theorem stat_to_attr_faithful:
  assumes "stat_times_ok st" and "0 \<le> st_size st" and "st_size st \<le> i64_max"
    and "unat (st_nlink st) < 2 ^ 32"
  shows "\<exists>a. libc_stat_to_attr ino st = Some a \<and> fa_ino a = ino \<and>
    uint (fa_size a) = st_size st \<and> unat (fa_perm a) = unat (st_mode st) mod 4096 \<and>
    unat (fa_nlink a) = unat (st_nlink st) \<and> fa_uid a = st_uid st \<and> fa_gid a = st_gid st \<and>
    fa_kind a = kind_of_mode (st_mode st) \<and>
    fa_mtime a = (if 0 \<le> st_mtime st then (st_mtime st, nat (st_mtime_nsec st)) else (0, 0))"
proof -
  have "uint (of_int (st_size st) :: u64) = st_size st"
    using assms(2,3) by (simp add: uint_word_of_int_eq take_bit_eq_mod i64_max_def)
  moreover have "unat (ucast (st_nlink st) :: u32) = unat (st_nlink st)"
    using assms(4) by (simp add: unsigned_ucast_eq take_bit_eq_mod)
  ultimately show ?thesis
    using assms unat_mode_bits [of "st_mode st"]
    by (auto simp: stat_times_ok_def libc_stat_to_attr_def mk_time_ok u64_from_i64_def u32_from_u64_def)
qed

definition demo_stat :: stat where
  "demo_stat = \<lparr>st_mode = 0x81A4, st_size = 12, st_blocks = 8, st_nlink = 1, st_uid = 0, st_gid = 0,
     st_rdev = 0, st_blksize = 4096, st_atime = 5, st_atime_nsec = 0, st_mtime = -1,
     st_mtime_nsec = 7, st_ctime = 5, st_ctime_nsec = 0\<rparr>"

theorem stat_to_attr_faithful_witness:
  "\<exists>a. libc_stat_to_attr 9 demo_stat = Some a \<and> uint (fa_size a) = 12 \<and> unat (fa_perm a) = 0x1A4 \<and>
     fa_kind a = RegularFile \<and> fa_mtime a = (0, 0)"
proof -
  have 1: "stat_times_ok demo_stat" and 2: "0 \<le> st_size demo_stat" and 3: "st_size demo_stat \<le> i64_max"
    and 4: "unat (st_nlink demo_stat) < 2 ^ 32"
    by (simp_all add: stat_times_ok_def demo_stat_def i64_max_def nanos_per_sec_def)
  have "kind_of_mode (st_mode demo_stat) = RegularFile"
    by (simp add: demo_stat_def kind_of_mode_def S_IFMT_def Let_def)
  with stat_to_attr_faithful [OF 1 2 3 4, of 9] show ?thesis
    by (auto simp: demo_stat_def)
qed

end
