(* ===== verification/Overlay.thy ===== *)
theory Overlay
  imports Xattrs Skip Inode_Table File_Attr
begin

text \<open>
  The passthrough file system of \<^verbatim>\<open>src/fs.rs\<close>: \<^verbatim>\<open>ProvFs\<close> and its \<^verbatim>\<open>fuser::Filesystem\<close> handlers. A
  handler takes the arguments of the request, the state of the file system and the world, and
  returns the reply, the new state and the new world. \<^verbatim>\<open>fuser\<close> calls the handlers one at a time
  (they take \<^verbatim>\<open>&mut self\<close>), so the mutexes never block and are not part of the state. An \<^verbatim>\<open>i32\<close> of
  open flags is its 32-bit pattern, an \<^verbatim>\<open>i64\<close> offset an integer, a file descriptor a natural
  number. Log messages are left out; a panic (\<^verbatim>\<open>libc_stat_to_attr\<close> on an impossible time) is the
  reply \<open>Panicked\<close>.
\<close>

unbundle bit_operations_syntax

section \<open>Stamping\<close>

definition should_stamp :: "path \<Rightarrow> skip_list \<Rightarrow> bool" where
  "should_stamp rel sk = (\<not> should_skip sk rel)"

text \<open>The result of the stamp is logged and dropped.\<close>

definition stamp_now :: "'w os \<Rightarrow> path \<Rightarrow> u32 \<Rightarrow> 'w \<Rightarrow> 'w" where
  "stamp_now os abspath pid w =
     (let ident = resolve_identity os pid w; now = os_now_rfc3339 os w
      in snd (stamp os abspath ident now w))"

definition stamp_with :: "'w os \<Rightarrow> path \<Rightarrow> identity \<Rightarrow> str \<Rightarrow> ('w, unit) io" where
  "stamp_with os abspath ident now_iso = stamp os abspath ident now_iso"

section \<open>The state\<close>

record provfs =
  source :: path
  skip :: skip_list
  inodes :: inode_table
  dirty :: "u64 set"

definition provfs_new :: "path \<Rightarrow> skip_list \<Rightarrow> provfs" where
  "provfs_new src sk = \<lparr>source = src, skip = sk, inodes = with_root src, dirty = {}\<rparr>"

definition relpath :: "provfs \<Rightarrow> path \<Rightarrow> path" where
  "relpath fs abspath = (case strip_prefix abspath (source fs) of None \<Rightarrow> abspath | Some rel \<Rightarrow> rel)"

definition maybe_stamp :: "'w os \<Rightarrow> provfs \<Rightarrow> path \<Rightarrow> u32 \<Rightarrow> 'w \<Rightarrow> 'w" where
  "maybe_stamp os fs abspath pid w =
     (if should_stamp (relpath fs abspath) (skip fs) then stamp_now os abspath pid w else w)"

section \<open>Replies\<close>

definition TTL :: nat where "TTL = 1"
definition O_CREAT :: u32 where "O_CREAT = 0x40"
definition O_ACCMODE :: u32 where "O_ACCMODE = 3"
definition O_RDONLY :: u32 where "O_RDONLY = 0"

record fuse_dirent =
  fd_ino :: u64
  fd_off :: int
  fd_type :: file_type
  fd_name :: string

datatype fuse_reply =
    RError errno
  | REntry nat file_attr u64
  | RAttr nat file_attr
  | RCreated nat file_attr u64 u64 u32
  | ROpened u64 u32
  | RData bytes
  | RWritten u32
  | ROk
  | RDirectory "fuse_dirent list"
  | Panicked

type_synonym 'w handler = "provfs \<Rightarrow> 'w \<Rightarrow> fuse_reply \<times> provfs \<times> 'w"

text \<open>A reply built from \<^verbatim>\<open>libc_stat_to_attr\<close>, which may panic.\<close>

definition with_attr :: "u64 \<Rightarrow> stat \<Rightarrow> (file_attr \<Rightarrow> fuse_reply) \<Rightarrow> fuse_reply" where
  "with_attr ino st mk = (case libc_stat_to_attr ino st of None \<Rightarrow> Panicked | Some a \<Rightarrow> mk a)"

text \<open>\<^verbatim>\<open>i32::try_from(fh).unwrap_or(-1)\<close>, \<open>None\<close> for a negative result.\<close>

definition fd_of_fh :: "u64 \<Rightarrow> nat option" where
  "fd_of_fh fh = (if unat fh < 2 ^ 31 then Some (unat fh) else None)"

section \<open>The handlers\<close>

definition fs_lookup :: "'w os \<Rightarrow> u64 \<Rightarrow> string \<Rightarrow> 'w handler" where
  "fs_lookup os parent name fs w =
     (case path_of (inodes fs) parent of
        None \<Rightarrow> (RError ENOENT, fs, w)
      | Some parent_path \<Rightarrow>
          (let child = path_join parent_path name
           in case lstat os child w of
                Inr st \<Rightarrow>
                  (let (ino, t) = intern (inodes fs) child
                   in (with_attr ino st (\<lambda>a. REntry TTL a 0), fs\<lparr>inodes := t\<rparr>, w))
              | Inl e \<Rightarrow> (RError (io_err_to_errno e), fs, w)))"

definition fs_getattr :: "'w os \<Rightarrow> u64 \<Rightarrow> 'w handler" where
  "fs_getattr os ino fs w =
     (case path_of (inodes fs) ino of
        None \<Rightarrow> (RError ENOENT, fs, w)
      | Some p \<Rightarrow>
          (case lstat os p w of
             Inr st \<Rightarrow> (with_attr ino st (RAttr TTL), fs, w)
           | Inl e \<Rightarrow> (RError (io_err_to_errno e), fs, w)))"

definition fs_create :: "'w os \<Rightarrow> u32 \<Rightarrow> u64 \<Rightarrow> string \<Rightarrow> u32 \<Rightarrow> u32 \<Rightarrow> 'w handler" where
  "fs_create os pid parent name mode flags fs w =
     (case path_of (inodes fs) parent of
        None \<Rightarrow> (RError ENOENT, fs, w)
      | Some parent_path \<Rightarrow>
          (let child = path_join parent_path name
           in if has_nul child then (RError EINVAL, fs, w)
              else case os_open os child (flags OR O_CREAT) mode w of
                     (Inl e, w1) \<Rightarrow> (RError e, fs, w1)
                   | (Inr fd, w1) \<Rightarrow>
                       (case lstat os child w1 of
                          Inl e \<Rightarrow> (RError (io_err_to_errno e), fs, os_close os fd w1)
                        | Inr st \<Rightarrow>
                            (let (ino, t) = intern (inodes fs) child;
                                 fs1 = fs\<lparr>inodes := t\<rparr>;
                                 w2 = maybe_stamp os fs1 child pid w1;
                                 fs2 = fs1\<lparr>dirty := insert ino (dirty fs1)\<rparr>;
                                 fh = of_nat fd
                             in (with_attr ino st (\<lambda>a. RCreated TTL a 0 fh 0), fs2, w2)))))"

definition fs_open :: "'w os \<Rightarrow> u64 \<Rightarrow> u32 \<Rightarrow> 'w handler" where
  "fs_open os ino flags fs w =
     (case path_of (inodes fs) ino of
        None \<Rightarrow> (RError ENOENT, fs, w)
      | Some p \<Rightarrow>
          if has_nul p then (RError EINVAL, fs, w)
          else case os_open os p flags 0 w of
                 (Inl e, w1) \<Rightarrow> (RError e, fs, w1)
               | (Inr fd, w1) \<Rightarrow>
                   (let writable = (flags AND O_ACCMODE \<noteq> O_RDONLY);
                        fs1 = (if writable then fs\<lparr>dirty := insert ino (dirty fs)\<rparr> else fs)
                    in (ROpened (of_nat fd) 0, fs1, w1)))"

text \<open>\<^verbatim>\<open>pread\<close> overwrites the front of the zeroed buffer, which is then cut to the bytes read.\<close>

definition fs_read :: "'w os \<Rightarrow> u64 \<Rightarrow> int \<Rightarrow> u32 \<Rightarrow> 'w handler" where
  "fs_read os fh offset sz fs w =
     (let buf = replicate (unat sz) (CHR 0x00)
      in case fd_of_fh fh of
           None \<Rightarrow> (RError EBADF, fs, w)
         | Some fd \<Rightarrow>
             (case os_pread os fd (unat sz) offset w of
                Inl e \<Rightarrow> (RError e, fs, w)
              | Inr got \<Rightarrow>
                  (let buf1 = got @ drop (length got) buf
                   in (RData (take (length got) buf1), fs, w))))"

definition fs_write :: "'w os \<Rightarrow> u64 \<Rightarrow> u64 \<Rightarrow> int \<Rightarrow> bytes \<Rightarrow> 'w handler" where
  "fs_write os ino fh offset data fs w =
     (case fd_of_fh fh of
        None \<Rightarrow> (RError EBADF, fs, w)
      | Some fd \<Rightarrow>
          (case os_pwrite os fd data offset w of
             (Inl e, w1) \<Rightarrow> (RError e, fs, w1)
           | (Inr n, w1) \<Rightarrow>
               (RWritten (if n < 2 ^ 32 then of_nat n else 0),
                fs\<lparr>dirty := insert ino (dirty fs)\<rparr>, w1)))"

definition fs_release :: "'w os \<Rightarrow> u32 \<Rightarrow> u64 \<Rightarrow> u64 \<Rightarrow> 'w handler" where
  "fs_release os pid ino fh fs w =
     (let w1 = (case fd_of_fh fh of None \<Rightarrow> w | Some fd \<Rightarrow> os_close os fd w);
          was_dirty = (ino \<in> dirty fs);
          fs1 = fs\<lparr>dirty := dirty fs - {ino}\<rparr>;
          w2 = (if was_dirty
                then (case path_of (inodes fs1) ino of
                        None \<Rightarrow> w1
                      | Some p \<Rightarrow> maybe_stamp os fs1 p pid w1)
                else w1)
      in (ROk, fs1, w2))"

text \<open>The arguments of \<^verbatim>\<open>setattr\<close>; the handler names all but \<open>sa_mode\<close> and \<open>sa_size\<close> with an underscore.\<close>

datatype time_or_now = SpecificTime sys_time | Now

record setattr_req =
  sa_mode :: "u32 option"
  sa_uid :: "u32 option"
  sa_gid :: "u32 option"
  sa_size :: "u64 option"
  sa_atime :: "time_or_now option"
  sa_mtime :: "time_or_now option"
  sa_ctime :: "sys_time option"
  sa_fh :: "u64 option"
  sa_crtime :: "sys_time option"
  sa_chgtime :: "sys_time option"
  sa_bkuptime :: "sys_time option"
  sa_flags :: "u32 option"

definition set_mode :: "'w os \<Rightarrow> path \<Rightarrow> u32 option \<Rightarrow> 'w \<Rightarrow> (errno + unit) \<times> 'w" where
  "set_mode os p mode w = (case mode of None \<Rightarrow> (Inr (), w) | Some m \<Rightarrow> os_chmod os p m w)"

definition set_size :: "'w os \<Rightarrow> path \<Rightarrow> u64 option \<Rightarrow> 'w \<Rightarrow> (errno + unit) \<times> 'w" where
  "set_size os p sz w = (case sz of None \<Rightarrow> (Inr (), w) | Some s \<Rightarrow> os_truncate os p (sint s) w)"

definition fs_setattr :: "'w os \<Rightarrow> u32 \<Rightarrow> u64 \<Rightarrow> setattr_req \<Rightarrow> 'w handler" where
  "fs_setattr os pid ino req fs w =
     (case path_of (inodes fs) ino of
        None \<Rightarrow> (RError ENOENT, fs, w)
      | Some p \<Rightarrow>
          if has_nul p then (RError EINVAL, fs, w)
          else case set_mode os p (sa_mode req) w of
                 (Inl e, w1) \<Rightarrow> (RError e, fs, w1)
               | (Inr _, w1) \<Rightarrow>
                   (case set_size os p (sa_size req) w1 of
                      (Inl e, w2) \<Rightarrow> (RError e, fs, w2)
                    | (Inr _, w2) \<Rightarrow>
                        (let w3 = maybe_stamp os fs p pid w2
                         in case lstat os p w3 of
                              Inr st \<Rightarrow> (with_attr ino st (RAttr TTL), fs, w3)
                            | Inl e \<Rightarrow> (RError (io_err_to_errno e), fs, w3))))"

definition fs_mkdir :: "'w os \<Rightarrow> u32 \<Rightarrow> u64 \<Rightarrow> string \<Rightarrow> u32 \<Rightarrow> 'w handler" where
  "fs_mkdir os pid parent name mode fs w =
     (case path_of (inodes fs) parent of
        None \<Rightarrow> (RError ENOENT, fs, w)
      | Some parent_path \<Rightarrow>
          (let child = path_join parent_path name
           in if has_nul child then (RError EINVAL, fs, w)
              else case os_mkdir os child mode w of
                     (Inl e, w1) \<Rightarrow> (RError e, fs, w1)
                   | (Inr _, w1) \<Rightarrow>
                       (case lstat os child w1 of
                          Inl e \<Rightarrow> (RError (io_err_to_errno e), fs, w1)
                        | Inr st \<Rightarrow>
                            (let (ino, t) = intern (inodes fs) child;
                                 fs1 = fs\<lparr>inodes := t\<rparr>;
                                 w2 = maybe_stamp os fs1 child pid w1
                             in (with_attr ino st (\<lambda>a. REntry TTL a 0), fs1, w2)))))"

definition fs_unlink :: "'w os \<Rightarrow> u64 \<Rightarrow> string \<Rightarrow> 'w handler" where
  "fs_unlink os parent name fs w =
     (case path_of (inodes fs) parent of
        None \<Rightarrow> (RError ENOENT, fs, w)
      | Some parent_path \<Rightarrow>
          (let child = path_join parent_path name
           in if has_nul child then (RError EINVAL, fs, w)
              else case os_unlink os child w of
                     (Inl e, w1) \<Rightarrow> (RError e, fs, w1)
                   | (Inr _, w1) \<Rightarrow> (ROk, fs\<lparr>inodes := forget_path (inodes fs) child\<rparr>, w1)))"

definition fs_rmdir :: "'w os \<Rightarrow> u64 \<Rightarrow> string \<Rightarrow> 'w handler" where
  "fs_rmdir os parent name fs w =
     (case path_of (inodes fs) parent of
        None \<Rightarrow> (RError ENOENT, fs, w)
      | Some parent_path \<Rightarrow>
          (let child = path_join parent_path name
           in if has_nul child then (RError EINVAL, fs, w)
              else case os_rmdir os child w of
                     (Inl e, w1) \<Rightarrow> (RError e, fs, w1)
                   | (Inr _, w1) \<Rightarrow> (ROk, fs\<lparr>inodes := forget_path (inodes fs) child\<rparr>, w1)))"

section \<open>Reading a directory\<close>

definition entry_file_type :: "dir_entry \<Rightarrow> file_type" where
  "entry_file_type ent =
     (case de_type ent of
        Inl _ \<Rightarrow> RegularFile
      | Inr t \<Rightarrow> (case t of IsDir \<Rightarrow> Directory | IsSymlink \<Rightarrow> Symlink | _ \<Rightarrow> RegularFile))"

text \<open>\<^verbatim>\<open>entries.flatten()\<close> drops the entries that could not be read.\<close>

definition flatten_entries :: "(io_error + dir_entry) list \<Rightarrow> dir_entry list" where
  "flatten_entries es = List.map_filter (\<lambda>e. case e of Inl _ \<Rightarrow> None | Inr d \<Rightarrow> Some d) es"

fun collect_entries :: "path \<Rightarrow> dir_entry list \<Rightarrow> inode_table \<Rightarrow> (u64 \<times> file_type \<times> string) list \<times> inode_table" where
  "collect_entries p [] t = ([], t)"
| "collect_entries p (ent # ents) t =
     (let (child_ino, t1) = intern t (path_join p (de_name ent));
          (rest, t2) = collect_entries p ents t1
      in ((child_ino, entry_file_type ent, de_name ent) # rest, t2))"

text \<open>
  \<^verbatim>\<open>reply.add\<close> belongs to \<^verbatim>\<open>fuser\<close>: \<open>full buf e\<close> says whether it refuses \<open>e\<close> because the buffer, which
  holds \<open>buf\<close>, has no room for it. The loop stops at the first refusal.
\<close>

fun fill_reply ::
  "(fuse_dirent list \<Rightarrow> fuse_dirent \<Rightarrow> bool) \<Rightarrow> (nat \<times> u64 \<times> file_type \<times> string) list
     \<Rightarrow> fuse_dirent list \<Rightarrow> fuse_dirent list" where
  "fill_reply full [] buf = buf"
| "fill_reply full ((i, cino, ftype, name) # rest) buf =
     (let next_off = (if int (i + 1) \<le> i64_max then int (i + 1) else 0);
          e = \<lparr>fd_ino = cino, fd_off = next_off, fd_type = ftype, fd_name = name\<rparr>
      in if full buf e then buf else fill_reply full rest (buf @ [e]))"

definition fs_readdir ::
  "'w os \<Rightarrow> (fuse_dirent list \<Rightarrow> fuse_dirent \<Rightarrow> bool) \<Rightarrow> u64 \<Rightarrow> int \<Rightarrow> 'w handler" where
  "fs_readdir os full ino offset fs w =
     (case path_of (inodes fs) ino of
        None \<Rightarrow> (RError ENOENT, fs, w)
      | Some p \<Rightarrow>
          (case os_read_dir os p w of
             Inl e \<Rightarrow> (RError (io_err_to_errno e), fs, w)
           | Inr ents \<Rightarrow>
               (let (found, t) = collect_entries p (flatten_entries ents) (inodes fs);
                    all = (ino, Directory, ''.'') # (ino, Directory, ''..'') # found;
                    offset_usize = (if 0 \<le> offset then nat offset else 0)
                in (RDirectory (fill_reply full (drop offset_usize (enumerate 0 all)) []),
                    fs\<lparr>inodes := t\<rparr>, w))))"

section \<open>Requests\<close>

datatype fuse_request =
    Lookup u64 string
  | Getattr u64
  | Create u64 string u32 u32
  | Open u64 u32
  | Read u64 int u32
  | Write u64 u64 int bytes
  | Release u64 u64
  | Setattr u64 setattr_req
  | Mkdir u64 string u32
  | Unlink u64 string
  | Rmdir u64 string
  | Readdir "fuse_dirent list \<Rightarrow> fuse_dirent \<Rightarrow> bool" u64 int

text \<open>The dispatch of \<^verbatim>\<open>fuser\<close>: a request of process \<open>pid\<close> goes to its handler.\<close>

fun handle :: "'w os \<Rightarrow> u32 \<Rightarrow> fuse_request \<Rightarrow> 'w handler" where
  "handle os pid (Lookup parent name) = fs_lookup os parent name"
| "handle os pid (Getattr ino) = fs_getattr os ino"
| "handle os pid (Create parent name mode flags) = fs_create os pid parent name mode flags"
| "handle os pid (Open ino flags) = fs_open os ino flags"
| "handle os pid (Read fh offset sz) = fs_read os fh offset sz"
| "handle os pid (Write ino fh offset data) = fs_write os ino fh offset data"
| "handle os pid (Release ino fh) = fs_release os pid ino fh"
| "handle os pid (Setattr ino req) = fs_setattr os pid ino req"
| "handle os pid (Mkdir parent name mode) = fs_mkdir os pid parent name mode"
| "handle os pid (Unlink parent name) = fs_unlink os parent name"
| "handle os pid (Rmdir parent name) = fs_rmdir os parent name"
| "handle os pid (Readdir full ino offset) = fs_readdir os full ino offset"

lemmas handler_defs [op_defs] =
  fs_lookup_def fs_getattr_def fs_create_def fs_open_def fs_read_def fs_write_def fs_release_def
  fs_setattr_def fs_mkdir_def fs_unlink_def fs_rmdir_def fs_readdir_def

end
