(* ===== verification/Overlay_Inv.thy ===== *)
theory Overlay_Inv
  imports Overlay
begin

text \<open>
  The file system as a state machine: one step is one request of any process, or any change of
  the world by somebody else. The invariant \<open>overlay_inv\<close> says that the inode table is a
  bijection, that the root stays mapped, and that every path the file system will ever touch is
  the source directory followed by ordinary file names (no \<^verbatim>\<open>..\<close>, no absolute path). It is proved
  handler by handler and lifted to all reachable states by the interface \<open>inv_machine\<close>.
\<close>

section \<open>What the kernel guarantees of a request\<close>

text \<open>
  A name in a request is one path component, the entries of a directory have such names too, and
  the 64-bit counter has room for the inodes the request may allocate.
\<close>

fun request_ok :: "'w os \<Rightarrow> provfs \<Rightarrow> 'w \<Rightarrow> fuse_request \<Rightarrow> bool" where
  "request_ok os fs w (Lookup parent name) = (file_name name \<and> table_room (inodes fs) 1)"
| "request_ok os fs w (Create parent name mode flags) = (file_name name \<and> table_room (inodes fs) 1)"
| "request_ok os fs w (Mkdir parent name mode) = (file_name name \<and> table_room (inodes fs) 1)"
| "request_ok os fs w (Unlink parent name) = file_name name"
| "request_ok os fs w (Rmdir parent name) = file_name name"
| "request_ok os fs w (Readdir full ino offset) =
     (case path_of (inodes fs) ino of
        None \<Rightarrow> True
      | Some p \<Rightarrow>
          (case os_read_dir os p w of
             Inl _ \<Rightarrow> True
           | Inr es \<Rightarrow>
               list_all (\<lambda>d. file_name (de_name d)) (flatten_entries es) \<and>
               table_room (inodes fs) (length (flatten_entries es))))"
| "request_ok os fs w _ = True"

inductive overlay_step :: "'w os \<Rightarrow> provfs \<times> 'w \<Rightarrow> provfs \<times> 'w \<Rightarrow> bool" for os :: "'w os" where
  request: "request_ok os fs w req \<Longrightarrow> handle os pid req fs w = (rep, fs', w') \<Longrightarrow>
    overlay_step os (fs, w) (fs', w')"
| outside: "overlay_step os (fs, w) (fs, w')"

inductive_cases overlay_stepE: "overlay_step os (fs, w) (fs', w')"

section \<open>The invariant\<close>

definition below :: "path \<Rightarrow> path \<Rightarrow> bool" where
  "below src p \<longleftrightarrow> (\<exists>ns. list_all file_name ns \<and> p = path_of_names src ns)"

definition table_inv :: "path \<Rightarrow> inode_table \<Rightarrow> bool" where
  "table_inv src t \<longleftrightarrow>
     table_wf t \<and> path_of t ROOT_INO = Some src \<and> (\<forall>i p. path_of t i = Some p \<longrightarrow> below src p)"

definition overlay_inv :: "provfs \<Rightarrow> bool" where
  "overlay_inv fs \<longleftrightarrow> table_inv (source fs) (inodes fs)"

lemma below_self [simp]: "below src src"
  by (auto simp: below_def path_of_names_def intro: exI [of _ "[]"])

lemma below_join: "below src p \<Longrightarrow> file_name n \<Longrightarrow> below src (path_join p n)"
  unfolding below_def path_of_names_def
  by (metis foldl_Cons foldl_Nil foldl_append list.pred_inject list_all_append)

lemma join_not_source:
  assumes "below src p" and "file_name n"
  shows "components (path_join p n) \<noteq> components src"
  using assms by (auto simp: below_def components_join components_path_of_names)

lemma table_invD:
  assumes "table_inv src t"
  shows table_inv_wf: "table_wf t"
    and table_inv_root: "path_of t ROOT_INO = Some src"
    and table_inv_below: "path_of t i = Some p \<Longrightarrow> below src p"
  using assms by (auto simp: table_inv_def)

lemma table_inv_intern:
  assumes "table_inv src t" and "below src p" and "table_room t (Suc n)" and "intern t p = (i, t')"
  shows "table_inv src t'"
proof -
  note wf = table_inv_wf [OF assms(1)]
  have "below src q" if "path_of t' j = Some q" for j q
    using that assms(2,4) table_inv_below [OF assms(1), of j q]
    by (cases "rev_map t (components p)") (auto simp: intern_known intern_new path_of_def split: if_splits)
  then show ?thesis
    using itab.add_wf [OF wf assms(3), of p] itab.add_keeps [OF wf assms(3,4) table_inv_root [OF assms(1)]]
      assms(4) by (simp add: table_inv_def)
qed

lemma table_inv_child:
  assumes "table_inv src t" and "intern t (path_join p n) = (i, t')" and "path_of t j = Some p"
    and "file_name n" and "table_room t (Suc 0)"
  shows "table_inv src t'"
  using assms by (intro table_inv_intern [OF assms(1) _ assms(5,2)] below_join table_inv_below)

lemma table_inv_forget:
  assumes "table_inv src t" and "below src p" and "file_name n"
  shows "table_inv src (forget_path t (path_join p n))"
  using assms join_not_source [OF assms(2,3)]
  by (auto simp: table_inv_def itab.forget_wf itab.forget_paths split: option.splits if_splits)

lemma table_inv_collect:
  assumes "table_inv src t" and "below src p" and "list_all (\<lambda>d. file_name (de_name d)) ents"
    and "table_room t (length ents)"
  shows "table_inv src (snd (collect_entries p ents t))"
  using assms
proof (induction ents arbitrary: t)
  case (Cons d ents)
  obtain i t1 where i: "intern t (path_join p (de_name d)) = (i, t1)" by fastforce
  have room: "table_room t (Suc (length ents))" using Cons.prems by simp
  have "table_inv src t1"
    using Cons.prems by (intro table_inv_intern [OF _ _ room i] below_join) simp_all
  moreover have "table_room t1 (length ents)" using intern_room [OF room] i by (metis snd_conv)
  ultimately show ?case
    using Cons i by (simp add: case_prod_beta)
qed simp

lemma with_root_inv: "table_inv src (with_root src)"
  using with_root_wf [of src]
  by (auto simp: table_inv_def with_root_def path_of_def ROOT_INO_def split: if_splits)

section \<open>Every handler keeps it\<close>

lemma handle_constant:
  "handle os pid req fs w = (rep, fs', w') \<Longrightarrow> source fs' = source fs \<and> skip fs' = skip fs"
  by (cases req) (auto simp: handler_defs Let_def split: option.splits sum.splits prod.splits if_splits)

lemma handle_inv:
  assumes "overlay_inv fs" and "request_ok os fs w req" and "handle os pid req fs w = (rep, fs', w')"
  shows "overlay_inv fs'"
proof -
  note inv = assms(1) [unfolded overlay_inv_def]
  have "table_inv (source fs) (inodes fs')"
  proof (cases req)
    case (Readdir full ino offset)
    then show ?thesis
      using assms(2,3) inv table_inv_collect [OF inv table_inv_below [OF inv]]
      by (fastforce simp: fs_readdir_def Let_def case_prod_beta split: option.splits sum.splits)
  qed (use assms(2,3) inv in
      \<open>auto simp: handler_defs Let_def split: option.splits sum.splits prod.splits if_splits
        intro: table_inv_child [OF inv] table_inv_forget [OF inv table_inv_below [OF inv]]\<close>)
  then show ?thesis using handle_constant [OF assms(3)] by (simp add: overlay_inv_def)
qed

definition overlay_init :: "path \<Rightarrow> skip_list \<Rightarrow> provfs \<times> 'w \<Rightarrow> bool" where
  "overlay_init src sk s \<longleftrightarrow> fst s = provfs_new src sk"

definition mounted :: "path \<Rightarrow> skip_list \<Rightarrow> provfs \<times> 'w \<Rightarrow> bool" where
  "mounted src sk s \<longleftrightarrow> source (fst s) = src \<and> skip (fst s) = sk \<and> overlay_inv (fst s)"

interpretation overlay: inv_machine "overlay_init src sk" "overlay_step os" "mounted src sk" for src sk os
proof
  fix s :: "provfs \<times> 'a"
  show "overlay_init src sk s \<Longrightarrow> mounted src sk s"
    by (simp add: overlay_init_def mounted_def provfs_new_def overlay_inv_def with_root_inv)
next
  fix s t :: "provfs \<times> 'a"
  assume "overlay_step os s t" and "mounted src sk s"
  then show "mounted src sk t"
    by (cases rule: overlay_step.cases) (auto simp: mounted_def handle_inv dest: handle_constant)
qed

section \<open>Properties\<close>

text \<open>
  C1. Confinement, in every reachable state: whatever requests processes send and however the
  world changes in between, inode 1 is the source directory, every other inode the kernel can
  name is the source directory followed by ordinary file names, so no request ever reaches a
  path outside the source by name, and no two inodes stand for the same path.
\<close>

theorem overlay_confined:
  assumes "overlay_init src sk s" and "(overlay_step os)\<^sup>*\<^sup>* s (fs, w)"
  shows "path_of (inodes fs) ROOT_INO = Some src \<and>
    (\<forall>i p. path_of (inodes fs) i = Some p \<longrightarrow>
       (\<exists>ns. list_all file_name ns \<and> p = path_of_names src ns)) \<and>
    (\<forall>i j p q. path_of (inodes fs) i = Some p \<longrightarrow> path_of (inodes fs) j = Some q \<longrightarrow>
       components p = components q \<longrightarrow> i = j)"
proof -
  have inv: "table_inv src (inodes fs)"
    using overlay.inv_reachable [OF assms] by (auto simp: mounted_def overlay_inv_def)
  then show ?thesis
    using table_wf_inj [OF table_inv_wf [OF inv]] table_inv_below [OF inv] table_inv_root [OF inv]
    unfolding below_def path_of_def by blast
qed

definition demo_mem :: mem where
  "demo_mem = mem_files [(''/s/a'', ''hi''), (''/s/b'', ''yo'')]"

theorem overlay_confined_witness:
  "\<exists>fs w. (overlay_step mem_os)\<^sup>*\<^sup>* (provfs_new ''/s'' skip_defaults, demo_mem) (fs, w) \<and>
     path_of (inodes fs) ROOT_INO = Some ''/s''"
proof -
  obtain rep fs w where "handle mem_os 7 (Create 1 ''new'' 0x1A4 1) (provfs_new ''/s'' skip_defaults) demo_mem = (rep, fs, w)"
    by (cases "handle mem_os 7 (Create 1 ''new'' 0x1A4 1) (provfs_new ''/s'' skip_defaults) demo_mem") auto
  moreover have "request_ok mem_os (provfs_new ''/s'' skip_defaults) demo_mem (Create 1 ''new'' 0x1A4 1)"
    by (simp add: file_name_def table_room_def provfs_new_def with_root_def ROOT_INO_def)
  ultimately have "overlay_step mem_os (provfs_new ''/s'' skip_defaults, demo_mem) (fs, w)"
    by (intro overlay_step.request)
  then have "(overlay_step mem_os)\<^sup>*\<^sup>* (provfs_new ''/s'' skip_defaults, demo_mem) (fs, w)" by simp
  moreover from overlay_confined [OF _ this, of "''/s''" skip_defaults]
  have "path_of (inodes fs) ROOT_INO = Some ''/s''" by (simp add: overlay_init_def)
  ultimately show ?thesis by blast
qed

text \<open>The inode a handler resolves to a path before anything else.\<close>

fun target :: "fuse_request \<Rightarrow> u64 option" where
  "target (Lookup parent name) = Some parent"
| "target (Getattr ino) = Some ino"
| "target (Create parent name mode flags) = Some parent"
| "target (Open ino flags) = Some ino"
| "target (Setattr ino req) = Some ino"
| "target (Mkdir parent name mode) = Some parent"
| "target (Unlink parent name) = Some parent"
| "target (Rmdir parent name) = Some parent"
| "target (Readdir full ino offset) = Some ino"
| "target _ = None"

text \<open>
  A request on an inode the table does not know (never handed out, or forgotten after an
  unlink) is answered with \<^verbatim>\<open>ENOENT\<close> before any system call: neither the file system nor the world
  changes.
\<close>

theorem unknown_inode_enoent:
  assumes "target req = Some ino" and "path_of (inodes fs) ino = None"
  shows "handle os pid req fs w = (RError ENOENT, fs, w)"
  using assms by (cases req) (simp_all add: handler_defs)

theorem unknown_inode_enoent_witness:
  "handle mem_os 7 (Unlink 9 ''a'') (provfs_new ''/s'' skip_defaults) demo_mem =
     (RError ENOENT, provfs_new ''/s'' skip_defaults, demo_mem)"
  by (rule unknown_inode_enoent [of _ 9])
    (simp_all add: provfs_new_def with_root_def path_of_def ROOT_INO_def)

text \<open>
  C37. A request answered with an error leaves the file system's own state as it was: no inode is
  allocated or forgotten and no inode becomes dirty or clean.
\<close>

theorem failed_request_keeps_state:
  assumes "handle os pid req fs w = (RError e, fs', w')"
  shows "fs' = fs"
  using assms
  by (cases req)
    (auto simp: handler_defs with_attr_def Let_def
      split: option.splits sum.splits prod.splits if_splits)

theorem failed_request_keeps_state_witness:
  "\<exists>fs' w'. handle mem_os 7 (Getattr 9) (provfs_new ''/s'' skip_defaults) demo_mem = (RError ENOENT, fs', w') \<and>
     fs' = provfs_new ''/s'' skip_defaults"
proof -
  obtain fs' w' where "handle mem_os 7 (Getattr 9) (provfs_new ''/s'' skip_defaults) demo_mem = (RError ENOENT, fs', w')"
    by (simp add: fs_getattr_def provfs_new_def with_root_def path_of_def ROOT_INO_def)
  with failed_request_keeps_state [OF this] show ?thesis by blast
qed

text \<open>
  C38. No request makes a handler panic, as long as the time stamps \<^verbatim>\<open>lstat\<close> returns are ones a
  64-bit kernel can hold.
\<close>

theorem handlers_never_panic:
  assumes "\<And>p w st. os_lstat os p w = Inr st \<Longrightarrow> stat_times_ok st"
  shows "fst (handle os pid req fs w) \<noteq> Panicked"
proof -
  have attr: False if "libc_stat_to_attr ino st = None" "lstat os p w1 = Inr st" for p w1 ino st
    using that assms stat_to_attr_total [of st ino]
    by (fastforce simp: lstat_def split: sum.splits if_splits)
  show ?thesis
    by (cases req)
      (auto simp: handler_defs with_attr_def Let_def split: option.splits sum.splits prod.splits dest: attr)
qed

lemma mem_times_ok: "os_lstat mem_os p m = Inr st \<Longrightarrow> stat_times_ok st"
  by (auto simp: mem_os_def mem_stat_def stat_times_ok_def nanos_per_sec_def i64_max_def split: option.splits)

theorem handlers_never_panic_witness:
  "fst (handle mem_os 7 (Getattr 1) (provfs_new ''/s'' skip_defaults) demo_mem) \<noteq> Panicked"
  by (rule handlers_never_panic [OF mem_times_ok])

end
