(* ===== verification/Overlay_Stamping.thy ===== *)
theory Overlay_Stamping
  imports Overlay_Inv
begin

text \<open>
  When the file system stamps, what, and for whom. \<open>plain_os\<close> is the same operating system with
  \<^verbatim>\<open>setxattr\<close> turned into a successful no-op, so a handler run on it is the handler without its
  stamping: an ordinary loopback file system. Comparing the two says exactly what the stamping
  adds.
\<close>

section \<open>The loopback without stamps\<close>

definition plain_os :: "'w os \<Rightarrow> 'w os" where
  "plain_os os = os\<lparr>os_xattr_set := \<lambda>p k v w. (Inr (), w)\<rparr>"

lemma plain_os_simps [simp]:
  "os_read_dir (plain_os os) = os_read_dir os" "os_open (plain_os os) = os_open os"
  "os_close (plain_os os) = os_close os" "os_pread (plain_os os) = os_pread os"
  "os_pwrite (plain_os os) = os_pwrite os" "os_mkdir (plain_os os) = os_mkdir os"
  "os_unlink (plain_os os) = os_unlink os" "os_rmdir (plain_os os) = os_rmdir os"
  "os_xattr_set (plain_os os) p k v w = (Inr (), w)"
  by (simp_all add: plain_os_def)

lemma plain_os_lstat [simp]: "lstat (plain_os os) = lstat os"
  by (simp add: fun_eq_iff lstat_def plain_os_def)

lemma plain_os_set [simp]:
  "set_mode (plain_os os) = set_mode os" "set_size (plain_os os) = set_size os"
  by (simp_all add: fun_eq_iff set_mode_def set_size_def plain_os_def split: option.splits)

lemma plain_stamp [simp]: "maybe_stamp (plain_os os) fs p pid w = w"
  by (simp add: maybe_stamp_def stamp_now_def stamp_defs io_then_def io_ok_def Let_def split: option.splits)

text \<open>The decision to stamp depends on the source and the skip list only.\<close>

lemma maybe_stamp_state [simp]:
  "maybe_stamp os (fs\<lparr>inodes := t\<rparr>) = maybe_stamp os fs"
  "maybe_stamp os (fs\<lparr>dirty := d\<rparr>) = maybe_stamp os fs"
  by (simp_all add: fun_eq_iff maybe_stamp_def relpath_def)

lemma maybe_stamp_cong:
  "source fs' = source fs \<Longrightarrow> skip fs' = skip fs \<Longrightarrow> maybe_stamp os fs' = maybe_stamp os fs"
  by (simp add: fun_eq_iff maybe_stamp_def relpath_def)

lemma relpath_names:
  assumes "source fs \<noteq> []" and "list_all file_name ns" and "ns \<noteq> []"
  shows "relpath fs (path_of_names (source fs) ns) = join_with ''/'' ns"
  using strip_prefix_path_of_names [OF assms] by (simp add: relpath_def)

lemma maybe_stamp_names:
  assumes "source fs \<noteq> []" and "list_all file_name ns" and "ns \<noteq> []"
  shows "maybe_stamp os fs (path_of_names (source fs) ns) pid w =
    (if should_skip (skip fs) (join_with ''/'' ns) then w
     else stamp_now os (path_of_names (source fs) ns) pid w)"
  using relpath_names [OF assms] by (simp add: maybe_stamp_def should_stamp_def)

text \<open>The path a request stamps, given its reply.\<close>

fun stamp_target :: "provfs \<Rightarrow> fuse_request \<Rightarrow> fuse_reply \<Rightarrow> path option" where
  "stamp_target fs (Create parent name mode flags) rep =
     (case rep of RError _ \<Rightarrow> None
      | _ \<Rightarrow> map_option (\<lambda>p. path_join p name) (path_of (inodes fs) parent))"
| "stamp_target fs (Mkdir parent name mode) rep =
     (case rep of RError _ \<Rightarrow> None
      | _ \<Rightarrow> map_option (\<lambda>p. path_join p name) (path_of (inodes fs) parent))"
| "stamp_target fs (Release ino fh) rep = (if ino \<in> dirty fs then path_of (inodes fs) ino else None)"
| "stamp_target fs _ rep = None"

lemma with_attr_not_error:
  "with_attr ino st (\<lambda>a. RCreated t a g h f) \<noteq> RError e" "with_attr ino st (\<lambda>a. REntry t a g) \<noteq> RError e"
  by (auto simp: with_attr_def split: option.splits)

lemma with_attr_case [simp]:
  "(case with_attr ino st (\<lambda>a. RCreated t a g h f) of RError _ \<Rightarrow> x | _ \<Rightarrow> y) = y"
  "(case with_attr ino st (\<lambda>a. REntry t a g) of RError _ \<Rightarrow> x | _ \<Rightarrow> y) = y"
  by (auto simp: with_attr_def split: option.splits)

section \<open>Dirty inodes\<close>

datatype 'w event = By u32 fuse_request | Outside 'w

fun event_step :: "'w os \<Rightarrow> provfs \<times> 'w \<Rightarrow> 'w event \<Rightarrow> provfs \<times> 'w" where
  "event_step os (fs, w) (By pid req) = snd (handle os pid req fs w)"
| "event_step os (fs, w) (Outside w') = (fs, w')"

definition run :: "'w os \<Rightarrow> 'w event list \<Rightarrow> provfs \<times> 'w \<Rightarrow> provfs \<times> 'w" where
  "run os evs s = foldl (event_step os) s evs"

fun releases :: "u64 \<Rightarrow> 'w event \<Rightarrow> bool" where
  "releases ino (By pid (Release ino' fh)) = (ino' = ino)"
| "releases ino _ = False"

lemma handle_dirty:
  assumes "ino \<in> dirty fs" and "\<not> releases ino (By pid req)"
    and "handle os pid req fs w = (rep, fs', w')"
  shows "ino \<in> dirty fs'"
  using assms
  by (cases req) (auto simp: handler_defs Let_def split: option.splits sum.splits prod.splits if_splits)

lemma run_dirty:
  assumes "ino \<in> dirty (fst s)" and "list_all (\<lambda>e. \<not> releases ino e) evs"
  shows "ino \<in> dirty (fst (run os evs s))"
  using assms
proof (induction evs arbitrary: s)
  case (Cons e evs)
  have "ino \<in> dirty (fst (event_step os s e))"
  proof (cases e)
    case (By pid req)
    then show ?thesis
      using Cons.prems handle_dirty [of ino "fst s" pid req os "snd s"]
      by (cases s; cases "handle os pid req (fst s) (snd s)") auto
  qed (use Cons.prems in \<open>cases s; simp\<close>)
  with Cons show ?case by (simp add: run_def)
qed (simp add: run_def)

lemma release_dirty:
  assumes "ino \<in> dirty fs" and "path_of (inodes fs) ino = Some p" and "fd_of_fh fh = Some fd"
  shows "handle os pid (Release ino fh) fs w =
    (ROk, fs\<lparr>dirty := dirty fs - {ino}\<rparr>, maybe_stamp os fs p pid (os_close os fd w))"
  using assms by (simp add: fs_release_def Let_def)

lemma release_clean:
  assumes "ino \<notin> dirty fs" and "fd_of_fh fh = Some fd"
  shows "handle os pid (Release ino fh) fs w = (ROk, fs, os_close os fd w)"
  using assms by (simp add: fs_release_def Let_def)

section \<open>A stamp that succeeds\<close>

lemma maybe_stamp_ok:
  assumes "\<not> should_skip (skip fs) (relpath fs p)" and "ident = resolve_identity os pid w"
    and "fst (stamp os p ident (os_now_rfc3339 os w) w) = Inr ()"
  shows "stamp os p ident (os_now_rfc3339 os w) w = (Inr (), maybe_stamp os fs p pid w)"
  using assms by (simp add: maybe_stamp_def should_stamp_def stamp_now_def Let_def prod_eq_iff)

lemma maybe_stamp_attrs:
  assumes "\<not> should_skip (skip fs) (relpath fs p)" and "xattr_backend os p"
    and "ident = resolve_identity os pid w"
    and "fst (stamp os p ident (os_now_rfc3339 os w) w) = Inr ()"
  shows "attr os p (maybe_stamp os fs p pid w) KEY_SESSION = Inr (Some (session ident)) \<and>
    attr os p (maybe_stamp os fs p pid w) KEY_TOOL = Inr (Some (tool ident)) \<and>
    attr os p (maybe_stamp os fs p pid w) KEY_HISTORY =
      Inr (Some (push_history (prior_history os p w) (session ident)))"
  using stamp_attrs [OF assms(2) maybe_stamp_ok [OF assms(1,3,4)]] by simp

lemma create_ok:
  assumes "path_of (inodes fs) parent = Some pp" and "child = path_join pp name"
    and "os_open os child (flags OR O_CREAT) mode w = (Inr fd, w1)"
    and "handle os pid (Create parent name mode flags) fs w = (RCreated ttl a g fh fl, fs', w')"
  shows "\<exists>ino t. intern (inodes fs) child = (ino, t) \<and> fa_ino a = ino \<and>
    fs' = fs\<lparr>inodes := t, dirty := insert ino (dirty fs)\<rparr> \<and> w' = maybe_stamp os fs child pid w1"
  using assms
  by (auto simp: fs_create_def with_attr_def Let_def stat_to_attr_ino
      split: sum.splits prod.splits if_splits option.splits)

section \<open>Properties\<close>

text \<open>
  C6. Stamping is transparent. Every request but \<^verbatim>\<open>setattr\<close> gets the reply, and leaves the file
  system in the state, that the same overlay without stamping would give, whether or not the
  stamp succeeds; the world it leaves is that of the loopback with at most one stamp on top: by
  the requesting process, of the created file, the made directory, or the dirty file released.
\<close>

theorem stamping_transparent:
  assumes "\<forall>ino attrs. req \<noteq> Setattr ino attrs"
    and "handle os pid req fs w = (rep, fs', w')"
  shows "\<exists>w1. handle (plain_os os) pid req fs w = (rep, fs', w1) \<and>
    w' = (case stamp_target fs req rep of None \<Rightarrow> w1 | Some p \<Rightarrow> maybe_stamp os fs p pid w1)"
  using assms
  by (cases req)
    (auto simp: handler_defs Let_def split: option.splits sum.splits prod.splits if_splits)

theorem stamping_transparent_witness:
  "\<exists>rep fs' w' w1.
     handle mem_os 7 (Create 1 ''new'' 0x1A4 1) (provfs_new ''/s'' skip_defaults) demo_mem = (rep, fs', w') \<and>
     handle (plain_os mem_os) 7 (Create 1 ''new'' 0x1A4 1) (provfs_new ''/s'' skip_defaults) demo_mem = (rep, fs', w1)"
proof -
  let ?req = "Create 1 ''new'' 0x1A4 1"
  obtain rep fs' w' where h: "handle mem_os 7 ?req (provfs_new ''/s'' skip_defaults) demo_mem = (rep, fs', w')"
    by (cases "handle mem_os 7 ?req (provfs_new ''/s'' skip_defaults) demo_mem") auto
  have "\<forall>ino attrs. ?req \<noteq> Setattr ino attrs" by simp
  from stamping_transparent [OF this h] h show ?thesis by blast
qed

text \<open>
  C16. A path below a skipped directory is never stamped: in every reachable state, a request that
  could stamp a path \<open>src/n1/.../nk\<close> whose relative path the skip list matches does exactly what
  the loopback without stamping does, to the reply, the state and the world alike.
\<close>

fun stampable :: "provfs \<Rightarrow> fuse_request \<Rightarrow> path option" where
  "stampable fs (Create parent name mode flags) = map_option (\<lambda>p. path_join p name) (path_of (inodes fs) parent)"
| "stampable fs (Mkdir parent name mode) = map_option (\<lambda>p. path_join p name) (path_of (inodes fs) parent)"
| "stampable fs (Release ino fh) = path_of (inodes fs) ino"
| "stampable fs (Setattr ino attrs) = path_of (inodes fs) ino"
| "stampable fs _ = None"

theorem skipped_path_is_passthrough:
  assumes "src \<noteq> []" and "overlay_init src sk s" and "(overlay_step os)\<^sup>*\<^sup>* s (fs, w)"
    and "stampable fs req = Some (path_of_names src ns)" and "list_all file_name ns" and "ns \<noteq> []"
    and "should_skip sk (join_with ''/'' ns)"
  shows "handle os pid req fs w = handle (plain_os os) pid req fs w"
proof -
  have "source fs = src" "skip fs = sk"
    using overlay.inv_reachable [OF assms(2,3)] by (auto simp: mounted_def)
  with assms have "maybe_stamp os fs (path_of_names src ns) pid' w' = w'" for pid' w'
    using maybe_stamp_names [of fs ns] by simp
  with assms(4) show ?thesis
    by (cases req) (auto simp: handler_defs Let_def split: option.splits sum.splits prod.splits if_splits)
qed

theorem skipped_path_is_passthrough_witness:
  "handle mem_os 7 (Create 1 ''tmp_x'' 0x1A4 1) (provfs_new ''/s'' (from_user_spec ''tmp_'')) demo_mem =
   handle (plain_os mem_os) 7 (Create 1 ''tmp_x'' 0x1A4 1) (provfs_new ''/s'' (from_user_spec ''tmp_'')) demo_mem"
proof -
  let ?sk = "from_user_spec ''tmp_''"
  have 1: "overlay_init ''/s'' ?sk (provfs_new ''/s'' ?sk, demo_mem)" by (simp add: overlay_init_def)
  have 2: "stampable (provfs_new ''/s'' ?sk) (Create 1 ''tmp_x'' 0x1A4 1) = Some (path_of_names ''/s'' [''tmp_x''])"
    by (simp add: provfs_new_def with_root_def path_of_def ROOT_INO_def path_of_names_def)
  have 3: "list_all file_name [''tmp_x'']" "should_skip ?sk (join_with ''/'' [''tmp_x''])"
    by code_simp+
  show ?thesis
    by (rule skipped_path_is_passthrough [OF _ 1 rtranclp.rtrancl_refl 2 3(1) _ 3(2)]) simp_all
qed

text \<open>
  C7. A write is not stamped when it happens, it is stamped when the file is released: the only
  effect of \<^verbatim>\<open>write\<close> on the world is the \<^verbatim>\<open>pwrite\<close>; whatever happens next, short of a release of
  that inode, the first release finds it dirty and stamps its path in the name of the releasing
  process, unless the path is skipped or was unlinked.
\<close>

theorem write_stamped_at_release:
  assumes "handle os pid (Write ino fh offset data) fs w = (RWritten n, fs1, w1)"
    and "list_all (\<lambda>e. \<not> releases ino e) evs" and "run os evs (fs1, w1) = (fs2, w2)"
    and "path_of (inodes fs2) ino = Some p" and "\<not> should_skip (skip fs2) (relpath fs2 p)"
    and "fd_of_fh fh' = Some fd"
  shows "(\<exists>fd0. fd_of_fh fh = Some fd0 \<and> w1 = snd (os_pwrite os fd0 data offset w)) \<and>
    handle os pid' (Release ino fh') fs2 w2 =
      (ROk, fs2\<lparr>dirty := dirty fs2 - {ino}\<rparr>, stamp_now os p pid' (os_close os fd w2))"
proof -
  have "ino \<in> dirty fs1" and "\<exists>fd0. fd_of_fh fh = Some fd0 \<and> w1 = snd (os_pwrite os fd0 data offset w)"
    using assms(1) by (auto simp: fs_write_def split: option.splits sum.splits prod.splits)
  moreover from this(1) have "ino \<in> dirty fs2"
    using run_dirty [of ino "(fs1, w1)" evs os] assms(2,3) by simp
  ultimately show ?thesis
    using release_dirty [OF _ assms(4,6)] assms(5)
    by (simp add: maybe_stamp_def should_stamp_def)
qed

definition demo_open :: mem where
  "demo_open = demo_mem\<lparr>m_fds := [(4, ''/s/a''), (3, ''/s/a'')]\<rparr>"

definition demo_fs :: provfs where
  "demo_fs = (provfs_new ''/s'' skip_defaults)\<lparr>inodes := snd (intern (with_root ''/s'') ''/s/a'')\<rparr>"

lemma demo_fs_facts:
  "path_of (inodes demo_fs) 2 = Some ''/s/a''" "skip demo_fs = skip_defaults" "source demo_fs = ''/s''"
  by (simp_all add: demo_fs_def provfs_new_def intern_def with_root_def path_of_def ROOT_INO_def
      components_def has_root_def segments_def body_comps_def leading_cur_def junk_def comp_of_def)

theorem write_stamped_at_release_witness:
  "\<exists>n fs1 w1. handle mem_os 7 (Write 2 3 0 ''data'') demo_fs demo_open = (RWritten n, fs1, w1) \<and>
     handle mem_os 8 (Release 2 3) fs1 w1 =
       (ROk, fs1\<lparr>dirty := dirty fs1 - {2}\<rparr>, stamp_now mem_os ''/s/a'' 8 (os_close mem_os 3 w1))"
proof -
  have w: "handle mem_os 7 (Write 2 3 0 ''data'') demo_fs demo_open =
      (RWritten 4, demo_fs\<lparr>dirty := insert 2 (dirty demo_fs)\<rparr>, snd (os_pwrite mem_os 3 ''data'' 0 demo_open))"
    (is "_ = (_, ?fs1, ?w1)")
    by (simp add: fs_write_def fd_of_fh_def mem_os_def mem_pwrite_def demo_open_def demo_mem_def
        mem_files_def mem_node_def mem_put_def)
  have r: "relpath ?fs1 ''/s/a'' = ''a''" "\<not> should_skip skip_defaults ''a''"
    by (simp add: relpath_def demo_fs_facts, code_simp+)
  have "run mem_os [] (?fs1, ?w1) = (?fs1, ?w1)" by (simp add: run_def)
  from write_stamped_at_release [OF w _ this, of "''/s/a''" 3 3 8] r w show ?thesis
    by (auto simp: demo_fs_facts fd_of_fh_def)
qed

text \<open>
  C39. The dirty mark belongs to the inode and not to the open file. If a process opens a file
  read-only and closes it while another has written and not closed it yet, the reader's close is
  the one that stamps, in the reader's name, and the writer's own close leaves no stamp.
\<close>

theorem reader_close_takes_the_stamp:
  assumes "ino \<in> dirty fs" and "path_of (inodes fs) ino = Some p"
    and "flags AND O_ACCMODE = O_RDONLY"
    and "handle os reader (Open ino flags) fs w = (ROpened fh h, fs1, w1)"
    and "fd_of_fh fh = Some fd" and "fd_of_fh fh' = Some fd'"
  shows "\<exists>fs2 w2. handle os reader (Release ino fh) fs1 w1 = (ROk, fs2, w2) \<and>
    w2 = maybe_stamp os fs p reader (os_close os fd w1) \<and>
    handle os writer (Release ino fh') fs2 w2 = (ROk, fs2, os_close os fd' w2)"
proof -
  have fs1: "fs1 = fs"
    using assms(2-4) by (auto simp: fs_open_def split: sum.splits prod.splits if_splits)
  show ?thesis
    using release_dirty [OF assms(1,2,5), of os reader w1]
      release_clean [of ino "fs\<lparr>dirty := dirty fs - {ino}\<rparr>" fh' fd' os writer] assms(6)
    by (simp add: fs1)
qed

theorem reader_close_takes_the_stamp_witness:
  "\<exists>fs w fs1 w1 fs2 w2.
     handle mem_os 9 (Open 2 0) fs w = (ROpened 5 0, fs1, w1) \<and>
     handle mem_os 9 (Release 2 5) fs1 w1 = (ROk, fs2, w2) \<and>
     w2 = maybe_stamp mem_os fs ''/s/a'' 9 (os_close mem_os 5 w1) \<and>
     handle mem_os 7 (Release 2 3) fs2 w2 = (ROk, fs2, os_close mem_os 3 w2)"
proof -
  let ?fs = "demo_fs\<lparr>dirty := {2}\<rparr>"
  have p: "path_of (inodes ?fs) 2 = Some ''/s/a''" by (simp add: demo_fs_facts)
  have "\<not> has_nul ''/s/a''" by code_simp
  with p obtain w1 where h: "handle mem_os 9 (Open 2 0) ?fs demo_open = (ROpened 5 0, ?fs, w1)"
    by (simp add: fs_open_def mem_os_def mem_open_def demo_open_def demo_mem_def mem_files_def mem_node_def
        O_ACCMODE_def O_RDONLY_def Let_def)
  have "\<exists>fs2 w2. handle mem_os 9 (Release 2 5) ?fs w1 = (ROk, fs2, w2) \<and>
    w2 = maybe_stamp mem_os ?fs ''/s/a'' 9 (os_close mem_os 5 w1) \<and>
    handle mem_os 7 (Release 2 3) fs2 w2 = (ROk, fs2, os_close mem_os 3 w2)"
    by (rule reader_close_takes_the_stamp [OF _ p _ h]) (simp_all add: O_ACCMODE_def O_RDONLY_def fd_of_fh_def)
  with h show ?thesis by blast
qed

text \<open>
  \<^verbatim>\<open>setattr\<close> acts on the mode and the size only. A request for another owner, group or time is
  answered with the unchanged attributes, as a success, and the file is stamped as if it had
  been changed.
\<close>

theorem setattr_ignores_owner_and_times:
  assumes "path_of (inodes fs) ino = Some p" and "\<not> has_nul p"
    and "sa_mode attrs = None" and "sa_size attrs = None"
    and "lstat os p (maybe_stamp os fs p pid w) = Inr st" and "libc_stat_to_attr ino st = Some a"
  shows "handle os pid (Setattr ino attrs) fs w = (RAttr TTL a, fs, maybe_stamp os fs p pid w)"
  using assms by (simp add: fs_setattr_def set_mode_def set_size_def with_attr_def Let_def)

lemma io_then_pres:
  assumes "\<And>w. P w \<Longrightarrow> P (snd (m w))" and "\<And>w. P w \<Longrightarrow> P (snd (k w))" and "P w"
  shows "P (snd (io_then m k w))"
  using assms(1) [OF assms(3)] assms(2) by (auto simp: io_then_def split: prod.splits sum.splits)

lemma mem_write_node: "mem_node w q \<noteq> None \<Longrightarrow> mem_node (snd (write_str mem_os p key v w)) q \<noteq> None"
  by (auto simp: write_str_def mem_os_def mem_on_def split: option.splits)

lemma mem_write_opt_node: "mem_node w q \<noteq> None \<Longrightarrow> mem_node (snd (write_opt mem_os p key v w)) q \<noteq> None"
  using mem_write_node by (auto simp: write_opt_def io_ok_def split: option.splits)

lemma mem_stamp_node: "mem_node w q \<noteq> None \<Longrightarrow> mem_node (snd (stamp mem_os p ident now w)) q \<noteq> None"
  unfolding stamp_def
  by (intro io_then_pres [where P = "\<lambda>w. mem_node w q \<noteq> None"] mem_write_node mem_write_opt_node)
    (simp_all add: advance_history_def Let_def mem_write_node)

lemma mem_maybe_stamp_node: "mem_node w q \<noteq> None \<Longrightarrow> mem_node (maybe_stamp mem_os fs p pid w) q \<noteq> None"
  using mem_stamp_node [of w q p "resolve_identity mem_os pid w" "os_now_rfc3339 mem_os w"]
  by (simp add: maybe_stamp_def stamp_now_def Let_def)

definition chown_req :: setattr_req where
  "chown_req = \<lparr>sa_mode = None, sa_uid = Some 0, sa_gid = Some 0, sa_size = None, sa_atime = None,
     sa_mtime = Some Now, sa_ctime = None, sa_fh = None, sa_crtime = None, sa_chgtime = None,
     sa_bkuptime = None, sa_flags = None\<rparr>"

theorem setattr_ignores_owner_and_times_witness:
  "\<exists>a w'. handle mem_os 7 (Setattr 2 chown_req) demo_fs demo_open = (RAttr TTL a, demo_fs, w') \<and>
     w' = maybe_stamp mem_os demo_fs ''/s/a'' 7 demo_open"
proof -
  let ?w = "maybe_stamp mem_os demo_fs ''/s/a'' 7 demo_open"
  have nul: "\<not> has_nul ''/s/a''" by code_simp
  have "mem_node ?w ''/s/a'' \<noteq> None"
    by (rule mem_maybe_stamp_node) (simp add: demo_open_def demo_mem_def mem_node_def mem_files_def)
  then obtain st where st: "lstat mem_os ''/s/a'' ?w = Inr st"
    using nul by (auto simp: lstat_def mem_os_def)
  moreover have "os_lstat mem_os ''/s/a'' ?w = Inr st"
    using st nul by (simp add: lstat_def split: sum.splits)
  then obtain a where a: "libc_stat_to_attr 2 st = Some a"
    using stat_to_attr_total [OF mem_times_ok] by blast
  show ?thesis
    using setattr_ignores_owner_and_times [OF demo_fs_facts(1) nul _ _ st a, of chown_req]
    by (simp add: chown_req_def)
qed

text \<open>
  Creating a file outside the skipped directories records its creator: if the stamp's system
  calls succeed, the new file carries the session and the tool of the requesting process, the
  session heads its history, the reply's inode is mapped to the new path, and it is dirty, so the
  release will refresh the stamp.
\<close>

theorem create_records_creator:
  assumes "overlay_inv fs" and "table_room (inodes fs) 1"
    and "path_of (inodes fs) parent = Some pp" and "child = path_join pp name"
    and "\<not> should_skip (skip fs) (relpath fs child)" and "xattr_backend os child"
    and "os_open os child (flags OR O_CREAT) mode w = (Inr fd, w1)"
    and "ident = resolve_identity os pid w1"
    and "fst (stamp os child ident (os_now_rfc3339 os w1) w1) = Inr ()"
    and "handle os pid (Create parent name mode flags) fs w = (RCreated ttl a g fh fl, fs', w')"
  shows "os_xattr_get os child KEY_SESSION w' = Inr (Some (session ident)) \<and>
    os_xattr_get os child KEY_TOOL w' = Inr (Some (tool ident)) \<and>
    os_xattr_get os child KEY_HISTORY w' = Inr (Some (push_history (prior_history os child w1) (session ident))) \<and>
    (\<exists>q. path_of (inodes fs') (fa_ino a) = Some q \<and> components q = components child) \<and>
    fa_ino a \<in> dirty fs'"
proof -
  obtain ino t where i: "intern (inodes fs) child = (ino, t)" "fa_ino a = ino"
    and fs': "fs' = fs\<lparr>inodes := t, dirty := insert ino (dirty fs)\<rparr>"
    and w': "w' = maybe_stamp os fs child pid w1"
    using create_ok [OF assms(3,4,7,10)] by blast
  have "\<exists>q. path_of t ino = Some q \<and> components q = components child"
    using itab.add_maps [OF _ _ i(1)] assms(1,2) by (auto simp: overlay_inv_def table_inv_def)
  with maybe_stamp_attrs [OF assms(5,6,8,9)] show ?thesis
    by (simp add: attr_def fs' i(2) w')
qed

lemma mem_write_ok: "mem_node w p \<noteq> None \<Longrightarrow> \<exists>w'. write_str mem_os p key v w = (Inr (), w') \<and> mem_node w' p \<noteq> None"
  by (auto simp: write_str_def mem_os_def mem_on_def)

lemma mem_stamp_ok: "mem_node w p \<noteq> None \<Longrightarrow> fst (stamp mem_os p ident now w) = Inr ()"
proof -
  have opt: "\<exists>w'. write_opt mem_os p key ov w = (Inr (), w') \<and> mem_node w' p \<noteq> None"
    if "mem_node w p \<noteq> None" for key ov w
    using that mem_write_ok [of w p] by (cases ov) (auto simp: write_opt_def io_ok_def)
  have hist: "fst (write_str mem_os p key v w) = Inr ()" if "mem_node w p \<noteq> None" for key v w
    using mem_write_ok [OF that, of key v] by auto
  have ok: "fst (io_then m k w) = Inr ()"
    if "\<exists>w'. m w = (Inr (), w') \<and> mem_node w' p \<noteq> None"
      "\<And>w'. mem_node w' p \<noteq> None \<Longrightarrow> fst (k w') = Inr ()" for m k w
    using that by (auto simp: io_then_def)
  assume "mem_node w p \<noteq> None"
  then show ?thesis
    unfolding stamp_def
    by (intro ok opt mem_write_ok) (simp_all add: advance_history_def Let_def hist)
qed

lemma demo_fresh:
  "path_of (inodes (provfs_new ''/s'' skip_defaults)) 1 = Some ''/s''"
  "''/s/new'' = path_join ''/s'' ''new''" "\<not> has_nul ''/s/new''"
  "\<not> should_skip (skip (provfs_new ''/s'' skip_defaults)) (relpath (provfs_new ''/s'' skip_defaults) ''/s/new'')"
  by (simp add: provfs_new_def with_root_def path_of_def ROOT_INO_def, code_simp+)

lemma demo_create_in:
  assumes "mem_node w0 ''/s/new'' = None" and "m_fds w0 = []"
  obtains w1 a fs' w' where
    "os_open mem_os ''/s/new'' (1 OR O_CREAT) 0x1A4 w0 = (Inr 3, w1)"
    "mem_node w1 ''/s/new'' \<noteq> None" "\<And>q. q \<noteq> ''/s/new'' \<Longrightarrow> mem_node w1 q = mem_node w0 q"
    "handle mem_os 7 (Create 1 ''new'' 0x1A4 1) (provfs_new ''/s'' skip_defaults) w0 =
       (RCreated TTL a 0 3 0, fs', w')"
    "w' = maybe_stamp mem_os (provfs_new ''/s'' skip_defaults) ''/s/new'' 7 w1"
proof -
  let ?fs = "provfs_new ''/s'' skip_defaults"
  obtain w1 where o: "os_open mem_os ''/s/new'' (1 OR O_CREAT) 0x1A4 w0 = (Inr 3, w1)"
    and node: "mem_node w1 ''/s/new'' \<noteq> None"
    and other: "\<And>q. q \<noteq> ''/s/new'' \<Longrightarrow> mem_node w1 q = mem_node w0 q"
    using assms by (simp add: mem_os_def mem_open_def O_CREAT_def Let_def)
      (simp add: mem_node_def mem_put_def update_conv')
  obtain st where st: "lstat mem_os ''/s/new'' w1 = Inr st" "stat_times_ok st"
    using node demo_fresh(3) mem_times_ok [of "''/s/new''" w1] by (auto simp: lstat_def mem_os_def)
  obtain ino t where i: "intern (inodes ?fs) ''/s/new'' = (ino, t)" by fastforce
  obtain a where a: "libc_stat_to_attr ino st = Some a" using stat_to_attr_total [OF st(2)] by blast
  have "\<exists>fs'. handle mem_os 7 (Create 1 ''new'' 0x1A4 1) ?fs w0 =
      (RCreated TTL a 0 3 0, fs', maybe_stamp mem_os ?fs ''/s/new'' 7 w1)"
    using o demo_fresh(1,3) st(1) i a demo_fresh(2) [symmetric]
    by (simp add: fs_create_def with_attr_def Let_def)
  with that [OF o node other] show thesis by blast
qed

lemma demo_mem_fresh: "mem_node demo_mem ''/s/new'' = None" "m_fds demo_mem = []"
  by (simp_all add: demo_mem_def mem_files_def mem_node_def)

lemmas demo_create = demo_create_in [OF demo_mem_fresh]

theorem create_records_creator_witness:
  "\<exists>w1 ttl a g fh fl fs' w'.
     handle mem_os 7 (Create 1 ''new'' 0x1A4 1) (provfs_new ''/s'' skip_defaults) demo_mem =
       (RCreated ttl a g fh fl, fs', w') \<and>
     os_xattr_get mem_os ''/s/new'' KEY_SESSION w' = Inr (Some (session (resolve_identity mem_os 7 w1)))"
proof (rule demo_create)
  fix w1 a fs' w'
  let ?fs = "provfs_new ''/s'' skip_defaults"
  assume o: "os_open mem_os ''/s/new'' (1 OR O_CREAT) 0x1A4 demo_mem = (Inr 3, w1)"
    and node: "mem_node w1 ''/s/new'' \<noteq> None"
    and h: "handle mem_os 7 (Create 1 ''new'' 0x1A4 1) ?fs demo_mem = (RCreated TTL a 0 3 0, fs', w')"
  have inv: "overlay_inv ?fs" by (simp add: overlay_inv_def provfs_new_def with_root_inv)
  have room: "table_room (inodes ?fs) 1" by (simp add: table_room_def provfs_new_def with_root_def ROOT_INO_def)
  from create_records_creator [OF inv room demo_fresh(1,2,4) mem_xattr_backend o refl mem_stamp_ok [OF node] h] h
  show ?thesis by blast
qed

end
