(* ===== verification/Stampers.thy ===== *)
theory Stampers
  imports Prov_Cli Lsm_Work Overlay_Stamping
begin

text \<open>
  What the reader program relies on in whoever stamps a file. The overlay and the kernel module are
  separate programs that write the same attributes; the interface \<open>stamper\<close> is the part of the
  format they share, and what \<^verbatim>\<open>prov\<close> reports of a stamp is proved once, from the interface.
\<close>

locale stamper =
  fixes os :: "'w os" and p :: path
    and stamped :: "'i \<Rightarrow> 'w \<Rightarrow> 'w \<Rightarrow> bool" and sess_of :: "'i \<Rightarrow> str" and ts_of :: "'i \<Rightarrow> str"
  assumes sets_session: "stamped i w w' \<Longrightarrow> attr os p w' KEY_SESSION = Inr (Some (sess_of i))"
    and sets_ts: "stamped i w w' \<Longrightarrow> attr os p w' KEY_TS = Inr (Some (ts_of i))"
begin

lemma record_read:
  assumes "stamped i w w'" and "read_record os p w' = Inr r"
  shows "r_session r = Some (utf8_lossy (sess_of i))" and "r_ts r = Some (utf8_lossy (ts_of i))"
  using get_key_attr [OF sets_session [OF assms(1)]] get_key_attr [OF sets_ts [OF assms(1)]] assms(2)
  by (simp_all add: read_record_Inr)

lemma who_prints:
  assumes "stamped i w w'" and "read_record os p w' = Inr r" and "utf8_valid (sess_of i)"
  shows "cmd_who os p js w' =
    ([if js then Json (session_kind_json (classify (sess_of i)))
      else Line (session_kind_human (classify (sess_of i)))], SUCCESS)"
  using record_read(1) [OF assms(1,2)] assms(2,3) by (simp add: cmd_who_def load_record_def Let_def)

lemma dated:
  assumes "stamped i w w'" and "read_record os p w' = Inr r" and "utf8_valid (ts_of i)"
    and "ts_unix (parse_ts ch (ts_of i)) = Some t"
  shows "recent ch cutoff r \<longleftrightarrow> cutoff \<le> t"
  using record_read(2) [OF assms(1,2)] assms(3,4) by (simp add: recent_def)

lemma found:
  assumes "stamped i w w'" and "read_record os p w' = Inr r" and "utf8_valid (sess_of i)"
    and "utf8_valid (ts_of i)" and "ts_unix (parse_ts ch (ts_of i)) = Some t"
  shows "find_match ch \<lparr>fq_tool = None, fq_since = since, fq_session = Some pre, fq_intent = None\<rparr> (Some c) r \<longleftrightarrow>
    prefix pre (sess_of i) \<and> c \<le> t"
  using record_read(1) [OF assms(1,2)] assms(3) dated [OF assms(1,2,4,5)]
  by (auto simp: find_match_def record_is_empty_def)

end

text \<open>The two halves: a stamp of the overlay that succeeded, and a worker on a file that takes attributes.\<close>

interpretation overlay_stamper: stamper os p
    "\<lambda>(ident, now) w w'. xattr_backend os p \<and> stamp os p ident now w = (Inr (), w')"
    "\<lambda>(ident, now). session ident" "\<lambda>(ident, now). now" for os p
  by unfold_locales (auto dest: stamp_attrs)

interpretation kernel_stamper: stamper os p
    "\<lambda>k w w'. xattr_backend os p \<and> wk_dentry k = p \<and> (\<exists>P. settable os p P \<and> P w) \<and>
       provfs_stamp_worker os k w = w'"
    wk_session wk_ts for os p
  by unfold_locales (auto dest: worker_attr)

text \<open>The item of a release outside every agent namespace, as the reader sees it.\<close>

lemma released_item:
  assumes "provfs_file_release buf tk rl = Some k" and "tk_agent_ns tk = None"
    and "f = kernel_fields tk (hd (provfs_scan_writer_env tk))" and "length (render_fallback f) < PROV_IDENT_MAX"
    and "int (rl_seconds rl) \<le> i64_max"
  shows "wk_dentry k = rl_dentry rl" and "wk_session k = render_fallback f" and "utf8_valid (wk_ts k)"
    and "ts_unix (parse_ts ch (wk_ts k)) = Some (int (rl_seconds rl))"
proof -
  have "rl_seconds rl < 10 ^ 19" using assms(5) by (simp add: i64_max_def)
  from file_release_item [OF assms(1,2) _ this] assms(3,4)
  have k: "wk_dentry k = rl_dentry rl" "wk_ts k = dec_str (rl_seconds rl)" "wk_session k = render_fallback f"
    by simp_all
  then show "wk_dentry k = rl_dentry rl" "wk_session k = render_fallback f" "utf8_valid (wk_ts k)" by simp_all
  show "ts_unix (parse_ts ch (wk_ts k)) = Some (int (rl_seconds rl))"
    using assms(5) trim_trimmed [OF trimmed_dec_str] by (simp add: k parse_ts_def parse_i64_dec_str)
qed

end
