(* ===== verification/Stamp_Log.thy ===== *)
theory Stamp_Log
  imports Stampers
begin

text \<open>
  The abstract specification of the provenance of one file: a log of the stamps it received, newest
  first, from the overlay and from the kernel module in any order. Everything the attributes say is a
  function of the log. \<open>logged\<close> says how a file came by its log; between stamps other programs may
  do anything that leaves the provenance attributes of the file alone.
\<close>

section \<open>The log\<close>

datatype stamp_event = By_Overlay identity str | By_Kernel work

definition nonempty :: "str \<Rightarrow> str option" where
  "nonempty s = (if s = [] then None else Some s)"

fun ev_session :: "stamp_event \<Rightarrow> str" where
  "ev_session (By_Overlay i now) = session i" | "ev_session (By_Kernel k) = wk_session k"

fun ev_ts :: "stamp_event \<Rightarrow> str" where
  "ev_ts (By_Overlay i now) = now" | "ev_ts (By_Kernel k) = wk_ts k"

fun ev_tool :: "stamp_event \<Rightarrow> str option" where
  "ev_tool (By_Overlay i now) = Some (tool i)" | "ev_tool (By_Kernel k) = nonempty (wk_tool k)"

fun ev_turn :: "stamp_event \<Rightarrow> str option" where
  "ev_turn (By_Overlay i now) = turn i" | "ev_turn (By_Kernel k) = nonempty (wk_turn k)"

fun ev_intent :: "stamp_event \<Rightarrow> str option" where
  "ev_intent (By_Overlay i now) = intent i" | "ev_intent (By_Kernel k) = nonempty (wk_intent k)"

text \<open>The newest value that any stamp gave.\<close>

fun latest :: "('e \<Rightarrow> 'a option) \<Rightarrow> 'e list \<Rightarrow> 'a option" where
  "latest f [] = None"
| "latest f (e # L) = or_else (f e) (latest f L)"

text \<open>The sessions that went through the ring, newest first: the kernel module keeps none.\<close>

fun ring_sessions :: "stamp_event list \<Rightarrow> str list" where
  "ring_sessions [] = []"
| "ring_sessions (By_Overlay i now # L) = session i # ring_sessions L"
| "ring_sessions (By_Kernel k # L) = ring_sessions L"

definition log_shows :: "stamp_event list \<Rightarrow> prov_record \<Rightarrow> bool" where
  "log_shows L r \<longleftrightarrow>
     r_session r = latest (Some \<circ> ev_session) L \<and> r_ts r = latest (Some \<circ> ev_ts) L \<and>
     r_tool r = latest ev_tool L \<and> r_turn r = latest ev_turn L \<and> r_intent r = latest ev_intent L \<and>
     (case r_history r of
        None \<Rightarrow> ring_sessions L = []
      | Some h \<Rightarrow> ring_sessions L \<noteq> [] \<and> parse_history h = take MAX_HISTORY (dedup (ring_sessions L)))"

section \<open>How a file comes by its log\<close>

fun stamp_step :: "'w os \<Rightarrow> path \<Rightarrow> stamp_event \<Rightarrow> 'w \<Rightarrow> 'w \<Rightarrow> bool" where
  "stamp_step os p (By_Overlay i now) w w' = (stamp os p i now w = (Inr (), w'))"
| "stamp_step os p (By_Kernel k) w w' =
     (wk_dentry k = p \<and> (\<exists>P. settable os p P \<and> P w) \<and> provfs_stamp_worker os k w = w')"

inductive logged :: "'w os \<Rightarrow> path \<Rightarrow> stamp_event list \<Rightarrow> 'w \<Rightarrow> bool" for os p where
  fresh: "\<forall>key \<in> set prov_keys. attr os p w key = Inr None \<Longrightarrow> logged os p [] w"
| stamped: "logged os p L w \<Longrightarrow> stamp_step os p e w w' \<Longrightarrow> logged os p (e # L) w'"
| elsewhere: "logged os p L w \<Longrightarrow> \<forall>key \<in> set prov_keys. attr os p w' key = attr os p w key \<Longrightarrow>
    logged os p L w'"

fun event_ok :: "stamp_event \<Rightarrow> bool" where
  "event_ok (By_Overlay i now) = (ident_utf8 i \<and> utf8_valid now \<and> history_ok (session i))"
| "event_ok (By_Kernel k) = (utf8_valid (wk_session k) \<and> utf8_valid (wk_ts k) \<and> utf8_valid (wk_tool k) \<and>
     utf8_valid (wk_turn k) \<and> utf8_valid (wk_intent k))"

section \<open>The attributes as a function of the log\<close>

definition ev_value :: "str \<Rightarrow> stamp_event \<Rightarrow> str option" where
  "ev_value key e =
     (if key = KEY_SESSION then Some (ev_session e) else if key = KEY_TS then Some (ev_ts e)
      else if key = KEY_TOOL then ev_tool e else if key = KEY_TURN then ev_turn e
      else if key = KEY_INTENT then ev_intent e else None)"

fun ring_string :: "stamp_event list \<Rightarrow> str" where
  "ring_string [] = []"
| "ring_string (By_Overlay i now # L) = push_history (ring_string L) (session i)"
| "ring_string (By_Kernel k # L) = ring_string L"

definition log_attr :: "stamp_event list \<Rightarrow> str \<Rightarrow> str option" where
  "log_attr L key =
     (if key = KEY_HISTORY then if ring_sessions L = [] then None else Some (ring_string L)
      else latest (ev_value key) L)"

lemma set_prov_keys: "key \<in> set prov_keys \<longleftrightarrow>
    key \<in> {KEY_SESSION, KEY_TOOL, KEY_TURN, KEY_INTENT, KEY_TS, KEY_HISTORY}"
  by (auto simp: prov_keys_def)

lemma step_attr:
  assumes "xattr_backend os p" and "stamp_step os p e w w'" and "key \<noteq> KEY_HISTORY"
  shows "attr os p w' key = (case ev_value key e of None \<Rightarrow> attr os p w key | Some v \<Rightarrow> Inr (Some v))"
proof (cases e)
  case (By_Overlay i now)
  with assms(2) have "stamp os p i now w = (Inr (), w')" by simp
  from stamp_attrs [OF assms(1) this] show ?thesis
    using assms(3) By_Overlay by (auto simp: ev_value_def upd_opt_def split: option.split)
next
  case (By_Kernel k)
  with assms(2) obtain P where P: "wk_dentry k = p" "settable os p P" "P w" "provfs_stamp_worker os k w = w'"
    by auto
  from write_all_attr [OF assms(1) P(2,3), of "stamp_writes k"] P(1,4) show ?thesis
    using By_Kernel by (simp add: provfs_stamp_worker_def stamp_writes_def ev_value_def nonempty_def)
qed

text \<open>Either program's stamp, as a third instance of the interface.\<close>

interpretation log_stamper: stamper os p "\<lambda>e w w'. xattr_backend os p \<and> stamp_step os p e w w'" ev_session ev_ts
    for os p
  by unfold_locales (auto simp: step_attr ev_value_def)

lemma step_history:
  assumes "xattr_backend os p" and "stamp_step os p e w w'"
  shows "attr os p w' KEY_HISTORY =
    (case e of By_Overlay i now \<Rightarrow> Inr (Some (push_history (prior_history os p w) (session i)))
     | By_Kernel k \<Rightarrow> attr os p w KEY_HISTORY)"
proof (cases e)
  case (By_Overlay i now)
  with assms(2) have "stamp os p i now w = (Inr (), w')" by simp
  from stamp_attrs [OF assms(1) this] By_Overlay show ?thesis by simp
next
  case (By_Kernel k)
  with assms(2) obtain P where P: "wk_dentry k = p" "settable os p P" "P w" "provfs_stamp_worker os k w = w'"
    by auto
  from write_all_attr [OF assms(1) P(2,3), of "stamp_writes k"] P(1,4) By_Kernel show ?thesis
    by (simp add: provfs_stamp_worker_def stamp_writes_def)
qed

lemma ring_string_facts:
  assumes "list_all event_ok L"
  shows "utf8_valid (ring_string L)" and "ring_sessions L = [] \<Longrightarrow> ring_string L = []"
    and "entries (ring_string L) = take MAX_HISTORY (dedup (ring_sessions L))"
proof -
  have fold: "ring_string L = foldl push_history [] (rev (ring_sessions L))"
    by (induction L rule: ring_string.induct) simp_all
  have ok: "list_all (\<lambda>s. utf8_valid s \<and> history_ok s) (ring_sessions L)"
    using assms by (induction L rule: ring_sessions.induct) (auto simp: ident_utf8_def)
  show "utf8_valid (ring_string L)"
    using assms by (induction L rule: ring_string.induct) (auto simp: ident_utf8_def intro: utf8_valid_push)
  show "ring_string L = []" if "ring_sessions L = []" using that fold by simp
  have "list_all history_ok (rev (ring_sessions L))" using ok by (auto simp: list_all_iff)
  then show "entries (ring_string L) = take MAX_HISTORY (dedup (ring_sessions L))"
    unfolding fold using ring.view_pushes [of "[]"] by (simp add: ring.good_def entries_def)
qed

lemma logged_attr:
  assumes "xattr_backend os p" and "logged os p L w" and "list_all event_ok L"
  shows "\<forall>key \<in> set prov_keys. attr os p w key = Inr (log_attr L key)"
  using assms(2,3)
proof (induction rule: logged.induct)
  case (fresh w)
  then show ?case by (simp add: log_attr_def)
next
  case (stamped L w e w')
  then have L: "list_all event_ok L" and IH: "\<And>key. key \<in> set prov_keys \<Longrightarrow> attr os p w key = Inr (log_attr L key)"
    by simp_all
  have "prior_history os p w = ring_string L"
    using IH [of KEY_HISTORY] ring_string_facts [OF L]
    by (auto simp: prior_history_def read_str_def attr_def log_attr_def set_prov_keys)
  with step_history [OF assms(1) stamped.hyps(2)] IH [of KEY_HISTORY]
  have "attr os p w' KEY_HISTORY = Inr (log_attr (e # L) KEY_HISTORY)"
    by (cases e) (auto simp: log_attr_def set_prov_keys)
  moreover have "attr os p w' key = Inr (log_attr (e # L) key)"
    if "key \<in> set prov_keys" "key \<noteq> KEY_HISTORY" for key
    using step_attr [OF assms(1) stamped.hyps(2) that(2)] IH [OF that(1)] that(2)
    by (auto simp: log_attr_def or_else_def split: option.split)
  ultimately show ?case by metis
next
  case (elsewhere L w w')
  then show ?case by simp
qed

lemma ev_values:
  "ev_value KEY_SESSION = Some \<circ> ev_session" "ev_value KEY_TS = Some \<circ> ev_ts" "ev_value KEY_TOOL = ev_tool"
  "ev_value KEY_TURN = ev_turn" "ev_value KEY_INTENT = ev_intent"
  by (auto simp: ev_value_def)

lemma event_ok_values: "event_ok e \<Longrightarrow> ev_value key e = Some v \<Longrightarrow> utf8_valid v"
  by (cases e) (auto simp: ev_value_def ident_utf8_def nonempty_def split: if_splits option.splits)

lemma latest_member: "latest f L = Some v \<Longrightarrow> \<exists>e \<in> set L. f e = Some v"
  by (induction L) (auto simp: or_else_def split: option.splits)

lemma log_attr_valid:
  assumes "list_all event_ok L" and "log_attr L key = Some v"
  shows "utf8_valid v"
proof (cases "key = KEY_HISTORY")
  case True
  with assms ring_string_facts(1) [OF assms(1)] show ?thesis by (auto simp: log_attr_def split: if_splits)
next
  case False
  with assms(2) obtain e where "e \<in> set L" "ev_value key e = Some v"
    by (auto simp: log_attr_def dest: latest_member)
  with assms(1) show ?thesis by (auto simp: list_all_iff intro: event_ok_values)
qed

lemma logged_get_key:
  assumes "xattr_backend os p" and "logged os p L w" and "list_all event_ok L" and "key \<in> set prov_keys"
  shows "get_key os p key w = Inr (log_attr L key)"
proof -
  have a: "attr os p w key = Inr (log_attr L key)" using logged_attr [OF assms(1-3)] assms(4) by blast
  show ?thesis
  proof (cases "log_attr L key")
    case None
    with a show ?thesis by (simp add: get_key_def attr_def)
  next
    case (Some v)
    with a log_attr_valid [OF assms(3) Some] get_key_attr [of os p w key v] show ?thesis by simp
  qed
qed

text \<open>
  The record of a file is a view of its log: session and time are those of the newest stamp, the
  other fields the newest that any stamp gave, the history the distinct sessions of the overlay's
  stamps.
\<close>

lemma logged_record:
  assumes "xattr_backend os p" and "logged os p L w" and "list_all event_ok L"
    and "read_record os p w = Inr r"
  shows "log_shows L r"
proof -
  have key: "get_key os p key w = Inr (log_attr L key)" if "key \<in> set prov_keys" for key
    by (rule logged_get_key [OF assms(1-3) that])
  have fields: "r_session r = log_attr L KEY_SESSION" "r_tool r = log_attr L KEY_TOOL"
    "r_turn r = log_attr L KEY_TURN" "r_intent r = log_attr L KEY_INTENT" "r_ts r = log_attr L KEY_TS"
    "r_history r = log_attr L KEY_HISTORY"
    using assms(4) key by (simp_all add: read_record_Inr prov_keys_def)
  have hist: "parse_history (ring_string L) = take MAX_HISTORY (dedup (ring_sessions L))"
    using ring_string_facts(3) [OF assms(3)] by (simp add: parse_history_def)
  show ?thesis unfolding log_shows_def fields by (simp add: log_attr_def ev_values hist)
qed

end
