(* ===== verification/System_Log.thy ===== *)
theory System_Log
  imports Stamp_Log
begin

text \<open>
  The whole system around one file: processes make requests through the overlay, workers of the
  kernel module stamp, other programs do anything that leaves the provenance attributes of the file
  alone. \<open>system_run\<close> follows the log of the stamps the file receives; the log grows by what the
  handlers of the overlay do, not by what they should do.
\<close>

section \<open>Where a request stamps\<close>

text \<open>
  The path a request goes on to stamp, \<^verbatim>\<open>setattr\<close> included; it stamps after \<^verbatim>\<open>chmod\<close> and \<^verbatim>\<open>truncate\<close> have
  succeeded, whatever \<^verbatim>\<open>lstat\<close> says afterwards.
\<close>

definition stamp_site :: "'w os \<Rightarrow> u32 \<Rightarrow> fuse_request \<Rightarrow> provfs \<Rightarrow> 'w \<Rightarrow> path option" where
  "stamp_site os pid req fs w =
     (case req of
        Setattr ino a \<Rightarrow>
          (case path_of (inodes fs) ino of
             None \<Rightarrow> None
           | Some p \<Rightarrow>
               if has_nul p then None
               else case set_mode os p (sa_mode a) w of
                      (Inl _, _) \<Rightarrow> None
                    | (Inr _, w1) \<Rightarrow>
                        (case set_size os p (sa_size a) w1 of (Inl _, _) \<Rightarrow> None | (Inr _, _) \<Rightarrow> Some p))
      | _ \<Rightarrow> stamp_target fs req (fst (handle (plain_os os) pid req fs w)))"

definition plain_world :: "'w os \<Rightarrow> u32 \<Rightarrow> fuse_request \<Rightarrow> provfs \<Rightarrow> 'w \<Rightarrow> 'w" where
  "plain_world os pid req fs w = snd (snd (handle (plain_os os) pid req fs w))"

lemma handle_world:
  "snd (snd (handle os pid req fs w)) =
     (case stamp_site os pid req fs w of
        None \<Rightarrow> plain_world os pid req fs w
      | Some q \<Rightarrow> maybe_stamp os fs q pid (plain_world os pid req fs w))"
  by (cases req)
    (auto simp: stamp_site_def plain_world_def handler_defs Let_def
      split: option.splits sum.splits prod.splits if_splits)

section \<open>Runs\<close>

definition prov_same :: "'w os \<Rightarrow> path \<Rightarrow> 'w \<Rightarrow> 'w \<Rightarrow> bool" where
  "prov_same os p w w' \<longleftrightarrow> (\<forall>key \<in> set prov_keys. attr os p w' key = attr os p w key)"

definition no_prov :: "'w os \<Rightarrow> path \<Rightarrow> 'w \<Rightarrow> bool" where
  "no_prov os p w \<longleftrightarrow> (\<forall>key \<in> set prov_keys. attr os p w key = Inr None)"

text \<open>The entry a request adds to the log of \<open>p\<close>: its stamp, if it stamps \<open>p\<close> and \<open>p\<close> is not skipped.\<close>

definition stamp_entry :: "'w os \<Rightarrow> path \<Rightarrow> u32 \<Rightarrow> fuse_request \<Rightarrow> provfs \<Rightarrow> 'w \<Rightarrow> stamp_event list" where
  "stamp_entry os p pid req fs w =
     (let w1 = plain_world os pid req fs w
      in if stamp_site os pid req fs w = Some p \<and> \<not> should_skip (skip fs) (relpath fs p)
         then [By_Overlay (resolve_identity os pid w1) (os_now_rfc3339 os w1)] else [])"

text \<open>
  What is required of the file system while a request is served: a stamp of \<open>p\<close> succeeds, a stamp of
  another path does not touch the provenance of \<open>p\<close>.
\<close>

definition stamp_done :: "'w os \<Rightarrow> path \<Rightarrow> u32 \<Rightarrow> fuse_request \<Rightarrow> provfs \<Rightarrow> 'w \<Rightarrow> bool" where
  "stamp_done os p pid req fs w \<longleftrightarrow>
     (let w1 = plain_world os pid req fs w
      in case stamp_site os pid req fs w of
           None \<Rightarrow> True
         | Some q \<Rightarrow>
             if q \<noteq> p then prov_same os p w1 (maybe_stamp os fs q pid w1)
             else \<not> should_skip (skip fs) (relpath fs p) \<longrightarrow>
               fst (stamp os p (resolve_identity os pid w1) (os_now_rfc3339 os w1) w1) = Inr ())"

text \<open>
  \<open>born\<close> is the request that makes the file, or serves it while it has no provenance; in \<open>request\<close> the
  calls a handler makes besides stamping leave the attributes of the file as they were.
\<close>

inductive system_run :: "'w os \<Rightarrow> path \<Rightarrow> provfs \<times> 'w \<Rightarrow> stamp_event list \<Rightarrow> bool" for os p where
  fresh: "no_prov os p w \<Longrightarrow> system_run os p (fs, w) []"
| born: "no_prov os p (plain_world os pid req fs w) \<Longrightarrow> stamp_done os p pid req fs w \<Longrightarrow>
    handle os pid req fs w = (rep, fs', w') \<Longrightarrow>
    system_run os p (fs', w') (stamp_entry os p pid req fs w)"
| request: "system_run os p (fs, w) L \<Longrightarrow> prov_same os p w (plain_world os pid req fs w) \<Longrightarrow>
    stamp_done os p pid req fs w \<Longrightarrow> handle os pid req fs w = (rep, fs', w') \<Longrightarrow>
    system_run os p (fs', w') (stamp_entry os p pid req fs w @ L)"
| kernel: "system_run os p (fs, w) L \<Longrightarrow> wk_dentry k = p \<Longrightarrow> settable os p P \<Longrightarrow> P w \<Longrightarrow>
    system_run os p (fs, provfs_stamp_worker os k w) (By_Kernel k # L)"
| elsewhere: "system_run os p (fs, w) L \<Longrightarrow> prov_same os p w w' \<Longrightarrow> system_run os p (fs, w') L"

text \<open>A request takes a file with a log to one with the log extended by its entry.\<close>

lemma request_logged:
  assumes "logged os p L (plain_world os pid req fs w)" and "stamp_done os p pid req fs w"
    and "handle os pid req fs w = (rep, fs', w')"
  shows "logged os p (stamp_entry os p pid req fs w @ L) w'"
proof -
  let ?w1 = "plain_world os pid req fs w"
  have w': "w' = (case stamp_site os pid req fs w of None \<Rightarrow> ?w1 | Some q \<Rightarrow> maybe_stamp os fs q pid ?w1)"
    using handle_world [of os pid req fs w] assms(3) by simp
  show ?thesis
  proof (cases "stamp_site os pid req fs w = Some p")
    case False
    with w' assms(2) have "prov_same os p ?w1 w'"
      by (auto simp: stamp_done_def prov_same_def Let_def split: option.splits if_splits)
    with assms(1) have "logged os p L w'" unfolding prov_same_def by (rule logged.elsewhere)
    with False show ?thesis by (simp add: stamp_entry_def Let_def)
  next
    case site: True
    show ?thesis
    proof (cases "should_skip (skip fs) (relpath fs p)")
      case True
      with w' site assms(1) show ?thesis by (simp add: stamp_entry_def maybe_stamp_def should_stamp_def Let_def)
    next
      case False
      let ?i = "resolve_identity os pid ?w1" and ?now = "os_now_rfc3339 os ?w1"
      have "fst (stamp os p ?i ?now ?w1) = Inr ()"
        using assms(2) site False by (simp add: stamp_done_def Let_def)
      with maybe_stamp_ok [OF False refl] w' site
      have "stamp_step os p (By_Overlay ?i ?now) ?w1 w'" by simp
      from logged.stamped [OF assms(1) this] site False show ?thesis by (simp add: stamp_entry_def Let_def)
    qed
  qed
qed

lemma system_logged: "system_run os p s L \<Longrightarrow> logged os p L (snd s)"
proof (induction rule: system_run.induct)
  case (fresh w fs)
  then show ?case by (simp add: no_prov_def logged.fresh)
next
  case (born pid req fs w rep fs' w')
  from born(1) have "logged os p [] (plain_world os pid req fs w)" by (simp add: no_prov_def logged.fresh)
  from request_logged [OF this born(2,3)] show ?case by simp
next
  case (request fs w L pid req rep fs' w')
  then have "logged os p L (plain_world os pid req fs w)"
    by (auto simp: prov_same_def intro: logged.elsewhere)
  from request_logged [OF this request.hyps(3,4)] show ?case by simp
next
  case (kernel fs w L k P)
  then have "stamp_step os p (By_Kernel k) w (provfs_stamp_worker os k w)" by auto
  from logged.stamped [OF _ this] kernel show ?case by simp
next
  case (elsewhere fs w L w')
  then show ?case by (auto simp: prov_same_def intro: logged.elsewhere)
qed

section \<open>Properties\<close>

text \<open>
  C4. The record of a file is a view of the log of its stamps. Whatever requests processes send
  through the overlay, whatever items workers of the kernel module process, and in whatever order,
  from the moment the file is made: session and time that \<^verbatim>\<open>read_record\<close> finds are those of the newest
  stamp; tool, turn and intent are the newest that any stamp gave; and the history parses to the
  distinct sessions of the overlay's stamps, most recent first, at most five. (Stamps of the kernel
  module do not enter the history.)
\<close>

theorem record_is_view_of_log:
  assumes "xattr_backend os p" and "system_run os p (fs, w) L" and "list_all event_ok L"
    and "read_record os p w = Inr r"
  shows "log_shows L r"
  using logged_record [OF assms(1) _ assms(3,4)] system_logged [OF assms(2)] by simp

definition demo_item :: work where
  "demo_item = make_work ''/s/new'' ''pid:9;uid:0'' ''100'' [] ''3'' []"

lemma demo_born:
  assumes "os_open mem_os ''/s/new'' (1 OR O_CREAT) 0x1A4 demo_mem = (Inr 3, w1)"
    and "handle mem_os 7 (Create 1 ''new'' 0x1A4 1) (provfs_new ''/s'' skip_defaults) demo_mem = (RCreated t a 0 3 0, fs', w')"
  shows "plain_world mem_os 7 (Create 1 ''new'' 0x1A4 1) (provfs_new ''/s'' skip_defaults) demo_mem = w1 \<and>
    stamp_site mem_os 7 (Create 1 ''new'' 0x1A4 1) (provfs_new ''/s'' skip_defaults) demo_mem = Some ''/s/new''"
  using assms demo_fresh(1,3)
  by (auto simp: plain_world_def stamp_site_def fs_create_def demo_fresh(2) [symmetric] with_attr_def Let_def
      split: sum.splits prod.splits if_splits option.splits)

lemma demo_resolve:
  assumes "\<And>q. q \<noteq> ''/s/new'' \<Longrightarrow> mem_node w1 q = mem_node demo_mem q"
  shows "resolve_identity mem_os 7 w1 =
    \<lparr>session = ''comm:unknown:pid:7'', tool = ''unknown'', turn = None, intent = None\<rparr>"
proof -
  have "os_read_file mem_os (proc_path 7 leaf) w1 = Inl (Os ENOENT)" for leaf
    using assms [of "proc_path 7 leaf"]
    by (simp add: proc_path_def mem_os_def demo_mem_def mem_node_def mem_files_def)
  moreover have "fallback_session ''unknown'' 7 = ''comm:unknown:pid:7''" by code_simp
  ultimately show ?thesis by (simp add: resolve_identity_def read_environ_def read_comm_def Let_def)
qed

text \<open>A file created through the overlay and then stamped by a worker.\<close>

definition demo_entry :: stamp_event where
  "demo_entry = By_Overlay \<lparr>session = ''comm:unknown:pid:7'', tool = ''unknown'', turn = None, intent = None\<rparr>
     ''2026-05-24T00:00:00+00:00''"

lemma demo_item_fields:
  "wk_dentry demo_item = ''/s/new''" "wk_session demo_item = ''pid:9;uid:0''" "wk_ts demo_item = ''100''"
  "wk_tool demo_item = []" "wk_turn demo_item = ''3''" "wk_intent demo_item = []"
  by code_simp+

lemma demo_events_ok: "list_all event_ok [By_Kernel demo_item, demo_entry]"
proof -
  have "history_ok ''comm:unknown:pid:7''" by code_simp
  then show ?thesis by (simp add: demo_item_fields demo_entry_def ident_utf8_def ascii_def)
qed

lemma demo_system_run:
  obtains fs w r where "system_run mem_os ''/s/new'' (fs, w) [By_Kernel demo_item, demo_entry]"
    and "read_record mem_os ''/s/new'' w = Inr r"
proof (rule demo_create)
  fix w1 a fs' w'
  let ?fs = "provfs_new ''/s'' skip_defaults" and ?req = "Create 1 ''new'' 0x1A4 1" and ?p = "''/s/new''"
  assume run: "\<And>fs w r. system_run mem_os ?p (fs, w) [By_Kernel demo_item, demo_entry] \<Longrightarrow>
      read_record mem_os ?p w = Inr r \<Longrightarrow> thesis"
    and o: "os_open mem_os ?p (1 OR O_CREAT) 0x1A4 demo_mem = (Inr 3, w1)"
    and node: "mem_node w1 ?p \<noteq> None"
    and other: "\<And>q. q \<noteq> ?p \<Longrightarrow> mem_node w1 q = mem_node demo_mem q"
    and h: "handle mem_os 7 ?req ?fs demo_mem = (RCreated TTL a 0 3 0, fs', w')"
    and w': "w' = maybe_stamp mem_os ?fs ?p 7 w1"
  note born = demo_born [OF o h]
  have clock: "os_now_rfc3339 mem_os w1 = ''2026-05-24T00:00:00+00:00''"
    and new: "no_prov mem_os ?p w1"
    using o by (auto simp: mem_os_def mem_open_def demo_mem_def mem_files_def mem_node_def mem_put_def O_CREAT_def
        no_prov_def attr_def Let_def)
  have entry: "stamp_entry mem_os ?p 7 ?req ?fs demo_mem = [demo_entry]"
    using born demo_fresh(4) demo_resolve [OF other] clock by (simp add: stamp_entry_def demo_entry_def Let_def)
  have "stamp_done mem_os ?p 7 ?req ?fs demo_mem"
    using born mem_stamp_ok [OF node] by (simp add: stamp_done_def Let_def)
  from system_run.born [OF _ this h] new born entry have r1: "system_run mem_os ?p (fs', w') [demo_entry]" by simp
  have node': "mem_node w' ?p \<noteq> None" unfolding w' by (rule mem_maybe_stamp_node [OF node])
  note r2 = system_run.kernel [where P = "\<lambda>m. mem_node m ?p \<noteq> None", OF r1 demo_item_fields(1) mem_settable node']
  have node2: "mem_node (provfs_stamp_worker mem_os demo_item w') ?p \<noteq> None"
    using mem_worker_node [of w' demo_item] node' demo_item_fields(1) by simp
  obtain r where r: "read_record mem_os ?p (provfs_stamp_worker mem_os demo_item w') = Inr r"
    using mem_read_record [OF node2] ..
  show thesis by (rule run [OF r2 r])
qed

theorem record_is_view_of_log_witness:
  "\<exists>fs w L r. system_run mem_os ''/s/new'' (fs, w) L \<and> read_record mem_os ''/s/new'' w = Inr r \<and>
     r_session r = Some ''pid:9;uid:0'' \<and> r_tool r = Some ''unknown'' \<and> r_turn r = Some ''3'' \<and>
     map_option parse_history (r_history r) = Some [''comm:unknown:pid:7'']"
proof (rule demo_system_run)
  fix fs w r
  assume run: "system_run mem_os ''/s/new'' (fs, w) [By_Kernel demo_item, demo_entry]"
    and r: "read_record mem_os ''/s/new'' w = Inr r"
  from record_is_view_of_log [OF mem_xattr_backend run demo_events_ok r]
  have "r_session r = Some ''pid:9;uid:0'' \<and> r_tool r = Some ''unknown'' \<and> r_turn r = Some ''3'' \<and>
      map_option parse_history (r_history r) = Some [''comm:unknown:pid:7'']"
    by (simp add: log_shows_def demo_item_fields demo_entry_def nonempty_def or_else_def MAX_HISTORY_def
        split: option.splits)
  with run r show ?thesis by blast
qed

end
