(* ===== verification/Serial_Workers.thy ===== *)
theory Serial_Workers
  imports Lsm_Runs System_Log
begin

text \<open>
  The queue of the kernel module and the log of one file. \<open>stamps_interleave\<close> shows that two workers
  on one file can mix their stamps; here is what holds when they do not: \<open>serial_run\<close> are the runs of
  \<open>wq_step\<close> in which a worker takes an item of the file only when no other is writing to it. Then the
  writes, though they are separate steps, mixed with those to other files and with tasks that
  enqueue, have the effect of whole stamps in the order in which the items were accepted.
\<close>

section \<open>Runs that are serial on one file\<close>

fun writes_to :: "path \<Rightarrow> worker_pc \<Rightarrow> bool" where
  "writes_to p (Writing k kvs) = (wk_dentry k = p)"
| "writes_to p (Released k) = False"

definition writers :: "path \<Rightarrow> 'w wq \<Rightarrow> worker_pc multiset" where
  "writers p s = filter_mset (writes_to p) (wq_workers s)"

definition pending :: "path \<Rightarrow> 'w wq \<Rightarrow> work list" where
  "pending p s = filter (\<lambda>k. wk_dentry k = p) (wq_queue s)"

text \<open>
  The list holds the items for \<open>p\<close> that were accepted, oldest first. \<open>other\<close> is any step that accepts,
  takes or finishes no item of \<open>p\<close> and does not touch its provenance.
\<close>

inductive serial_run :: "'w os \<Rightarrow> int \<Rightarrow> path \<Rightarrow> ('w \<Rightarrow> bool) \<Rightarrow> 'w wq \<Rightarrow> work list \<Rightarrow> bool" for os M p P where
  start: "writers p s = {#} \<Longrightarrow> pending p s = [] \<Longrightarrow> no_prov os p (wq_world s) \<Longrightarrow> P (wq_world s) \<Longrightarrow>
    serial_run os M p P s []"
| accepts: "serial_run os M p P s A \<Longrightarrow> wq_tasks s = add_mset (Bumped k) T \<Longrightarrow> wk_dentry k = p \<Longrightarrow>
    serial_run os M p P ((set_task T Idle s)\<lparr>wq_queue := wq_queue s @ [k]\<rparr>) (A @ [k])"
| takes: "serial_run os M p P s A \<Longrightarrow> wq_queue s = k # q \<Longrightarrow> wk_dentry k = p \<Longrightarrow> writers p s = {#} \<Longrightarrow>
    serial_run os M p P
      (s\<lparr>wq_queue := q, wq_workers := add_mset (Writing k (stamp_writes k)) (wq_workers s)\<rparr>) A"
| writes: "serial_run os M p P s A \<Longrightarrow> wq_workers s = add_mset (Writing k ((key, v) # kvs)) W \<Longrightarrow>
    wk_dentry k = p \<Longrightarrow>
    serial_run os M p P (s\<lparr>wq_workers := add_mset (Writing k kvs) W,
      wq_world := snd (os_xattr_set os p key v (wq_world s))\<rparr>) A"
| finishes: "serial_run os M p P s A \<Longrightarrow> wq_workers s = add_mset (Writing k []) W \<Longrightarrow> wk_dentry k = p \<Longrightarrow>
    serial_run os M p P (dput (wk_dentry k) (s\<lparr>wq_workers := add_mset (Released k) W\<rparr>)) A"
| other: "serial_run os M p P s A \<Longrightarrow> wq_step os M s s' \<Longrightarrow> writers p s' = writers p s \<Longrightarrow>
    pending p s' = pending p s \<Longrightarrow> prov_same os p (wq_world s) (wq_world s') \<Longrightarrow> P (wq_world s') \<Longrightarrow>
    serial_run os M p P s' A"

text \<open>Such a run is a run of the queue.\<close>

lemma serial_run_is_run:
  "serial_run os M p P s A \<Longrightarrow> \<exists>s0. (wq_step os M)\<^sup>*\<^sup>* s0 s \<and> no_prov os p (wq_world s0)"
proof (induction rule: serial_run.induct)
  case (accepts s A k T)
  with wq_step.module [OF module_step.queue_ok [OF accepts.hyps(2)]] show ?case by (meson rtranclp.rtrancl_into_rtrancl)
next
  case (takes s A k q)
  with wq_step.module [OF module_step.work_starts [OF takes.hyps(2)]] show ?case by (meson rtranclp.rtrancl_into_rtrancl)
next
  case (writes s A k key v kvs W)
  with wq_step.module [OF module_step.work_writes [OF writes.hyps(2), of os], of M] show ?case
    by (metis rtranclp.rtrancl_into_rtrancl)
next
  case (finishes s A k W)
  with wq_step.module [OF module_step.work_releases [OF finishes.hyps(2)]] show ?case by (meson rtranclp.rtrancl_into_rtrancl)
next
  case (other s A s')
  then show ?case by (meson rtranclp.rtrancl_into_rtrancl)
qed auto

section \<open>The state between two writes\<close>

abbreviation kernel_log :: "work list \<Rightarrow> stamp_event list" where
  "kernel_log B \<equiv> map By_Kernel (rev B)"

definition upd_all :: "(str \<Rightarrow> io_error + bytes option) \<Rightarrow> (str \<times> str) list \<Rightarrow> str \<Rightarrow> io_error + bytes option" where
  "upd_all m kvs = foldl (\<lambda>m (k, v). m(k := Inr (Some v))) m kvs"

lemma upd_all_snoc [simp]: "upd_all m (kvs @ [(k, v)]) = (upd_all m kvs)(k := Inr (Some v))"
  by (simp add: upd_all_def)

text \<open>
  Either no worker writes to the file, and the file has the log of the items taken; or one is between
  two writes: the file had a log before that item, in a world \<open>w0\<close>, and since then the first writes
  \<open>pre\<close> of the item were made.
\<close>

inductive progress :: "'w os \<Rightarrow> path \<Rightarrow> ('w \<Rightarrow> bool) \<Rightarrow> 'w wq \<Rightarrow> work list \<Rightarrow> bool" for os p P s A where
  quiet: "writers p s = {#} \<Longrightarrow> A = B @ pending p s \<Longrightarrow> logged os p (kernel_log B) (wq_world s) \<Longrightarrow>
    P (wq_world s) \<Longrightarrow> progress os p P s A"
| busy: "writers p s = {#Writing k kvs#} \<Longrightarrow> wk_dentry k = p \<Longrightarrow> A = B @ k # pending p s \<Longrightarrow>
    stamp_writes k = pre @ kvs \<Longrightarrow> logged os p (kernel_log B) w0 \<Longrightarrow> P w0 \<Longrightarrow>
    (\<And>key. key \<in> set prov_keys \<Longrightarrow> attr os p (wq_world s) key = upd_all (attr os p w0) pre key) \<Longrightarrow>
    P (wq_world s) \<Longrightarrow> progress os p P s A"

inductive_cases progressE: "progress os p P s A"

text \<open>A worker that has made all its writes has stamped.\<close>

lemma busy_ends:
  assumes "xattr_backend os p" and "settable os p P" and "wk_dentry k = p"
    and "logged os p L w0" and "P w0"
    and "\<And>key. key \<in> set prov_keys \<Longrightarrow> attr os p w key = upd_all (attr os p w0) (stamp_writes k) key"
  shows "logged os p (By_Kernel k # L) w"
proof -
  let ?w1 = "provfs_stamp_worker os k w0"
  have "stamp_step os p (By_Kernel k) w0 ?w1" using assms(2,3,5) by auto
  from logged.stamped [OF assms(4) this] have "logged os p (By_Kernel k # L) ?w1" .
  moreover have "attr os p ?w1 = upd_all (attr os p w0) (stamp_writes k)"
    using write_all_attr [OF assms(1,2,5)] assms(3) by (simp add: provfs_stamp_worker_def upd_all_def)
  with assms(6) have "\<forall>key \<in> set prov_keys. attr os p w key = attr os p ?w1 key" by simp
  ultimately show ?thesis by (rule logged.elsewhere)
qed

lemma progress_keep:
  assumes "progress os p P s A" and "writers p s' = writers p s" and "pending p s' = pending p s"
    and "prov_same os p (wq_world s) (wq_world s')" and "P (wq_world s')"
  shows "progress os p P s' A"
  using assms(1)
proof cases
  case (quiet B)
  with assms(4) have "logged os p (kernel_log B) (wq_world s')" unfolding prov_same_def by (blast intro: logged.elsewhere)
  with quiet assms show ?thesis by (auto intro: progress.quiet)
next
  case (busy k kvs B pre w0)
  have "attr os p (wq_world s') key = upd_all (attr os p w0) pre key" if "key \<in> set prov_keys" for key
    using busy(7) [OF that] assms(4) that by (simp add: prov_same_def)
  with busy assms show ?thesis by (auto intro: progress.busy)
qed

lemma progress_busyE:
  assumes "progress os p P s A" and "writers p s = add_mset (Writing k kvs) X"
  obtains B pre w0 where "X = {#}" and "A = B @ k # pending p s" and "stamp_writes k = pre @ kvs"
    and "logged os p (kernel_log B) w0" and "P w0" and "P (wq_world s)"
    and "\<forall>key \<in> set prov_keys. attr os p (wq_world s) key = upd_all (attr os p w0) pre key"
  using assms(1)
proof cases
  case (quiet B)
  with assms(2) show thesis by simp
next
  case (busy k' kvs' B pre w0)
  from busy(1) assms(2) have "k' = k" "kvs' = kvs" "X = {#}" by simp_all
  with busy that show thesis by blast
qed

lemma serial_progress:
  assumes "xattr_backend os p" and "settable os p P" and "serial_run os M p P s A"
  shows "progress os p P s A"
  using assms(3)
proof (induction rule: serial_run.induct)
  case (start s)
  then have "logged os p (kernel_log []) (wq_world s)" by (simp add: no_prov_def logged.fresh)
  with start show ?case by (intro progress.quiet [where B = "[]"]) simp_all
next
  case (accepts s A k T)
  let ?s' = "(set_task T Idle s)\<lparr>wq_queue := wq_queue s @ [k]\<rparr>"
  have "writers p ?s' = writers p s" "pending p ?s' = pending p s @ [k]" "wq_world ?s' = wq_world s"
    using accepts.hyps(3) by (simp_all add: writers_def pending_def set_task_def)
  with accepts.IH show ?case
    by (auto elim!: progressE intro: progress.quiet progress.busy)
next
  case (takes s A k q)
  let ?s' = "s\<lparr>wq_queue := q, wq_workers := add_mset (Writing k (stamp_writes k)) (wq_workers s)\<rparr>"
  have s': "writers p ?s' = {#Writing k (stamp_writes k)#}" "pending p s = k # pending p ?s'" "wq_world ?s' = wq_world s"
    using takes.hyps by (simp_all add: writers_def pending_def)
  from takes.IH takes.hyps(4) obtain B where "A = B @ pending p s" "logged os p (kernel_log B) (wq_world s)" "P (wq_world s)"
    by (auto elim: progressE)
  with s' takes.hyps(3) show ?case
    by (intro progress.busy [where k = k and pre = "[]" and B = B and ?w0.0 = "wq_world s"]) (simp_all add: upd_all_def)
next
  case (writes s A k key v kvs W)
  let ?s' = "s\<lparr>wq_workers := add_mset (Writing k kvs) W, wq_world := snd (os_xattr_set os p key v (wq_world s))\<rparr>"
  have w: "writers p s = add_mset (Writing k ((key, v) # kvs)) (filter_mset (writes_to p) W)"
    "writers p ?s' = add_mset (Writing k kvs) (filter_mset (writes_to p) W)" "pending p ?s' = pending p s"
    using writes.hyps(2,3) by (simp_all add: writers_def pending_def)
  obtain B pre w0 where b: "filter_mset (writes_to p) W = {#}" "A = B @ k # pending p s"
    "stamp_writes k = pre @ (key, v) # kvs" "logged os p (kernel_log B) w0" "P w0" "P (wq_world s)"
    "\<forall>key \<in> set prov_keys. attr os p (wq_world s) key = upd_all (attr os p w0) pre key"
    by (rule progress_busyE [OF writes.IH w(1)])
  note one = write_one_attr [OF assms(1,2) b(6), of key v]
  show ?case
    by (rule progress.busy [where k = k and pre = "pre @ [(key, v)]" and B = B and kvs = kvs and ?w0.0 = w0])
      (use b w one writes.hyps(3) in \<open>simp_all\<close>)
next
  case (finishes s A k W)
  let ?s' = "dput (wk_dentry k) (s\<lparr>wq_workers := add_mset (Released k) W\<rparr>)"
  have w: "writers p s = add_mset (Writing k []) (filter_mset (writes_to p) W)"
    "writers p ?s' = filter_mset (writes_to p) W" "pending p ?s' = pending p s" "wq_world ?s' = wq_world s"
    using finishes.hyps(2,3) by (simp_all add: writers_def pending_def dput_def)
  obtain B pre w0 where b: "filter_mset (writes_to p) W = {#}" "A = B @ k # pending p s"
    "stamp_writes k = pre @ []" "logged os p (kernel_log B) w0" "P w0" "P (wq_world s)"
    "\<forall>key \<in> set prov_keys. attr os p (wq_world s) key = upd_all (attr os p w0) pre key"
    by (rule progress_busyE [OF finishes.IH w(1)])
  from b(3,7) have "\<And>key. key \<in> set prov_keys \<Longrightarrow>
      attr os p (wq_world s) key = upd_all (attr os p w0) (stamp_writes k) key" by simp
  from busy_ends [OF assms(1,2) finishes.hyps(3) b(4,5) this]
  show ?case by (intro progress.quiet [where B = "B @ [k]"]) (use b w in simp_all)
next
  case (other s A s')
  then show ?case by (auto intro: progress_keep)
qed

text \<open>One worker can process an item from beginning to end.\<close>

lemma serial_writes:
  assumes "serial_run os M p P s A" and "wq_workers s = add_mset (Writing k kvs) W" and "wk_dentry k = p"
  shows "serial_run os M p P
    (s\<lparr>wq_workers := add_mset (Writing k []) W, wq_world := write_all os p kvs (wq_world s)\<rparr>) A"
  using assms(1,2)
proof (induction kvs arbitrary: s)
  case Nil
  then have "s\<lparr>wq_workers := add_mset (Writing k []) W, wq_world := write_all os p [] (wq_world s)\<rparr> = s"
    by (cases s) simp
  with Nil show ?case by metis
next
  case (Cons kv kvs)
  obtain key v where kv: "kv = (key, v)" by (cases kv)
  from serial_run.writes [OF Cons.prems(1) _ assms(3)] Cons.prems(2) kv
  have "serial_run os M p P (s\<lparr>wq_workers := add_mset (Writing k kvs) W,
      wq_world := snd (os_xattr_set os p key v (wq_world s))\<rparr>) A" by simp
  from Cons.IH [OF this] kv show ?case by simp
qed

lemma serial_item:
  assumes "serial_run os M p P s A" and "wq_queue s = k # q" and "wk_dentry k = p" and "writers p s = {#}"
  shows "\<exists>t. serial_run os M p P t A \<and> wq_queue t = q \<and> writers p t = {#} \<and>
    wq_world t = provfs_stamp_worker os k (wq_world s)"
proof -
  let ?u = "s\<lparr>wq_queue := q, wq_workers := add_mset (Writing k (stamp_writes k)) (wq_workers s)\<rparr>"
  let ?v = "?u\<lparr>wq_workers := add_mset (Writing k []) (wq_workers s),
    wq_world := write_all os p (stamp_writes k) (wq_world ?u)\<rparr>"
  let ?t = "dput (wk_dentry k) (?v\<lparr>wq_workers := add_mset (Released k) (wq_workers s)\<rparr>)"
  have u: "serial_run os M p P ?u A" by (rule serial_run.takes [OF assms])
  have v: "serial_run os M p P ?v A" by (rule serial_writes [OF u _ assms(3)]) simp
  have "serial_run os M p P ?t A" by (rule serial_run.finishes [OF v _ assms(3)]) simp
  then show ?thesis
    using assms(3,4) by (intro exI [of _ ?t]) (simp add: dput_def writers_def provfs_stamp_worker_def)
qed

section \<open>Properties\<close>

text \<open>
  C23. Without two workers on one file its stamps are whole and in order. In every run in which at most
  one worker at a time writes to the file, however its writes are mixed with tasks that enqueue and
  with work on other files, whenever no worker writes to it its record is the view of the log of the
  items accepted for it, oldest first, up to those still waiting in the queue: session and time are
  those of the item taken last, and no item is lost, repeated or overtaken. (\<open>stamps_interleave\<close> is what
  the unbound queue allows.)
\<close>

theorem serial_workers_make_the_log:
  assumes "xattr_backend os p" and "settable os p P" and "serial_run os M p P s A"
    and "writers p s = {#}" and "list_all (event_ok \<circ> By_Kernel) A"
    and "read_record os p (wq_world s) = Inr r"
  shows "\<exists>B. A = B @ pending p s \<and> log_shows (kernel_log B) r"
  using serial_progress [OF assms(1-3)]
proof cases
  case (quiet B)
  with assms(5) have "list_all event_ok (kernel_log B)" by (auto simp: list_all_iff)
  with logged_record [OF assms(1) quiet(3) _ assms(6)] quiet(2) show ?thesis by blast
qed (use assms(4) in simp)

theorem serial_workers_make_the_log_witness:
  "\<exists>s r. serial_run mem_os provfs_queue_max_max ''/f'' (\<lambda>m. mem_node m ''/f'' \<noteq> None) s [demo_work] \<and>
     pending ''/f'' s = [] \<and> read_record mem_os ''/f'' (wq_world s) = Inr r \<and> r_session r = Some ''pid:7;uid:0'' \<and>
     r_turn r = Some ''3'' \<and> r_history r = None"
proof -
  let ?p = "''/f''" and ?P = "\<lambda>m. mem_node m ''/f'' \<noteq> None"
  let ?s0 = "demo_wq\<lparr>wq_tasks := {#Bumped demo_work#}, wq_world := mem_files [(''/f'', [])]\<rparr>"
  let ?s1 = "(set_task {#} Idle ?s0)\<lparr>wq_queue := wq_queue ?s0 @ [demo_work]\<rparr>"
  have d: "wk_dentry demo_work = ?p" by (simp add: demo_work_def make_work_def)
  have w: "no_prov mem_os ?p (mem_files [(?p, [])])" "?P (mem_files [(?p, [])])"
    by (simp_all add: no_prov_def attr_def mem_os_def mem_node_def mem_files_def plain_node_def)
  have "serial_run mem_os provfs_queue_max_max ?p ?P ?s0 []"
    by (rule serial_run.start) (use w in \<open>simp_all add: demo_wq_def writers_def pending_def\<close>)
  from serial_run.accepts [OF this _ d, of "{#}"]
  have s1: "serial_run mem_os provfs_queue_max_max ?p ?P ?s1 [demo_work]" by simp
  have "wq_queue ?s1 = [demo_work]" "writers ?p ?s1 = {#}" "wq_world ?s1 = mem_files [(?p, [])]"
    by (simp_all add: demo_wq_def set_task_def writers_def)
  with serial_item [OF s1 this(1) d this(2)] obtain t where
    t: "serial_run mem_os provfs_queue_max_max ?p ?P t [demo_work]" "wq_queue t = []" "writers ?p t = {#}"
      "wq_world t = provfs_stamp_worker mem_os demo_work (mem_files [(?p, [])])" by auto
  have "?P (wq_world t)" using mem_worker_node [of "mem_files [(?p, [])]" demo_work] w(2) t(4) d by simp
  then obtain r where r: "read_record mem_os ?p (wq_world t) = Inr r" using mem_read_record [of "wq_world t"] by blast
  have item: "wk_session demo_work = ''pid:7;uid:0''" "wk_ts demo_work = ''100''" "wk_tool demo_work = ''bash''"
    "wk_turn demo_work = ''3''" "wk_intent demo_work = []" by code_simp+
  then have ok: "list_all (event_ok \<circ> By_Kernel) [demo_work]" by (simp add: ascii_def)
  have pend: "pending ?p t = []" using t(2) by (simp add: pending_def)
  from serial_workers_make_the_log [OF mem_xattr_backend mem_settable t(1,3) ok r] pend
  have "log_shows (kernel_log [demo_work]) r" by simp
  then have "r_session r = Some ''pid:7;uid:0''" "r_turn r = Some ''3''" "r_history r = None"
    by (simp_all add: log_shows_def item nonempty_def or_else_def split: option.splits)
  with t(1) pend r show ?thesis by blast
qed

end
