(* ===== verification/Overlay_Readdir.thy ===== *)
theory Overlay_Readdir
  imports Overlay_Stamping
begin

text \<open>
  Listing a directory through \<^verbatim>\<open>readdir\<close>. The kernel asks again and again, each time with the offset
  of the last entry it got, until a page is empty; how many entries fit in a page is the
  kernel's choice. \<open>list_dir\<close> is that client with a bound on the number of calls. The interface
  \<open>path_table\<close> carries the proof: a second pass over the same names allocates nothing and gives
  the same inodes.
\<close>

fun list_dir ::
  "'w os \<Rightarrow> (fuse_dirent list \<Rightarrow> fuse_dirent \<Rightarrow> bool) \<Rightarrow> u64 \<Rightarrow> nat \<Rightarrow> int \<Rightarrow> provfs \<Rightarrow> 'w
     \<Rightarrow> (fuse_dirent list \<times> provfs) option" where
  "list_dir os full ino 0 offset fs w = None"
| "list_dir os full ino (Suc n) offset fs w =
     (case fs_readdir os full ino offset fs w of
        (RDirectory page, fs', w') \<Rightarrow>
          if page = [] then Some ([], fs')
          else map_option (\<lambda>(rest, fs''). (page @ rest, fs'')) (list_dir os full ino n (fd_off (last page)) fs' w')
      | _ \<Rightarrow> None)"

definition dirent_of :: "nat \<times> u64 \<times> file_type \<times> string \<Rightarrow> fuse_dirent" where
  "dirent_of x =
     (case x of (i, cino, ftype, name) \<Rightarrow>
        \<lparr>fd_ino = cino, fd_off = int i + 1, fd_type = ftype, fd_name = name\<rparr>)"

lemma dirent_fields [simp]:
  "fd_name (dirent_of x) = snd (snd (snd x))" "fd_ino (dirent_of x) = fst (snd x)"
  "fd_off (dirent_of x) = int (fst x) + 1"
  by (simp_all add: dirent_of_def split: prod.splits)

definition dir_listing :: "u64 \<Rightarrow> (u64 \<times> file_type \<times> string) list \<Rightarrow> (u64 \<times> file_type \<times> string) list" where
  "dir_listing ino found = (ino, Directory, ''.'') # (ino, Directory, ''..'') # found"

lemma map_enumerate_names: "map (fd_name \<circ> dirent_of) (enumerate i xs) = map (snd \<circ> snd) xs"
  by (induction xs arbitrary: i) auto

section \<open>One page\<close>

lemma fill_reply_take:
  assumes "list_all (\<lambda>x. int (fst x) < i64_max) xs"
  shows "\<exists>k. fill_reply full xs buf = buf @ map dirent_of (take k xs) \<and>
    (xs \<noteq> [] \<longrightarrow> \<not> full buf (dirent_of (hd xs)) \<longrightarrow> 0 < k)"
  using assms
proof (induction xs arbitrary: buf)
  case (Cons x xs)
  obtain i c t n where x: "x = (i, c, t, n)" by (metis prod_cases4)
  have e: "(let next_off = (if int (i + 1) \<le> i64_max then int (i + 1) else 0)
            in \<lparr>fd_ino = c, fd_off = next_off, fd_type = t, fd_name = n\<rparr>) = dirent_of x"
    using Cons.prems by (simp add: x dirent_of_def i64_max_def)
  show ?case
  proof (cases "full buf (dirent_of x)")
    case True
    with e show ?thesis by (intro exI [of _ 0]) (simp add: x Let_def)
  next
    case False
    obtain k where "fill_reply full xs (buf @ [dirent_of x]) = (buf @ [dirent_of x]) @ map dirent_of (take k xs)"
      using Cons.IH [of "buf @ [dirent_of x]"] Cons.prems by auto
    with False e show ?thesis by (intro exI [of _ "Suc k"]) (simp add: x Let_def)
  qed
qed simp

lemma collect_add_all:
  "collect_entries p ents t =
     (let (is, t') = itab.add_all t (map (\<lambda>d. path_join p (de_name d)) ents)
      in (map2 (\<lambda>i d. (i, entry_file_type d, de_name d)) is ents, t'))"
  by (induction ents arbitrary: t) (auto simp: itab.add_all_Cons case_prod_beta)

text \<open>A directory read again, from the table the first reading left, gives the same entries.\<close>

lemma readdir_again:
  assumes inv: "overlay_inv fs" and p: "path_of (inodes fs) ino = Some p"
    and rd: "os_read_dir os p w = Inr es" and room: "table_room (inodes fs) (length (flatten_entries es))"
    and c: "collect_entries p (flatten_entries es) (inodes fs) = (found, t)"
    and off: "0 \<le> offset" and fs': "fs' = fs \<or> fs' = fs\<lparr>inodes := t\<rparr>"
  shows "fs_readdir os full ino offset fs' w =
    (RDirectory (fill_reply full (drop (nat offset) (enumerate 0 (dir_listing ino found))) []),
     fs\<lparr>inodes := t\<rparr>, w)"
proof -
  let ?ps = "map (\<lambda>d. path_join p (de_name d)) (flatten_entries es)"
  have wf: "table_wf (inodes fs)" using inv by (simp add: overlay_inv_def table_inv_def)
  obtain "is" where a: "itab.add_all (inodes fs) ?ps = (is, t)"
    using c by (auto simp: collect_add_all split: prod.splits)
  have room': "table_room (inodes fs) (length ?ps)" using room by simp
  have "itab.add_all t ?ps = (is, t)" by (rule itab.add_all_again [OF wf room' a])
  then have c': "collect_entries p (flatten_entries es) t = (found, t)"
    using a c by (simp add: collect_add_all)
  have p': "path_of t ino = Some p" using itab.add_all_keeps [OF wf room' p] a by simp
  from fs' show ?thesis
    using c c' p p' rd off by (auto simp: fs_readdir_def dir_listing_def Let_def)
qed

section \<open>All pages\<close>

lemma list_dir_step:
  assumes "fs_readdir os full ino off fs w = (RDirectory page, fs', w')" and "page \<noteq> []"
    and "list_dir os full ino n (fd_off (last page)) fs' w' = Some (rest, fs'')"
  shows "list_dir os full ino (Suc n) off fs w = Some (page @ rest, fs'')"
  using assms by simp

lemma list_dir_pages:
  assumes page: "\<And>off. 0 \<le> off \<Longrightarrow> fs_readdir os full ino off fs w =
      (RDirectory (fill_reply full (drop (nat off) (enumerate 0 all)) []), fs, w)"
    and empty: "\<And>e. \<not> full [] e" and len: "int (length all) < i64_max"
  shows "k \<le> length all \<Longrightarrow> length all - k < n \<Longrightarrow>
    list_dir os full ino n (int k) fs w = Some (map dirent_of (drop k (enumerate 0 all)), fs)"
proof (induction n arbitrary: k)
  case (Suc n)
  let ?xs = "drop k (enumerate 0 all)"
  have "list_all (\<lambda>x. int (fst x) < i64_max) ?xs"
    using len by (auto simp: list_all_iff in_set_enumerate_eq dest!: in_set_dropD)
  then obtain j where j: "fill_reply full ?xs [] = map dirent_of (take j ?xs)" "?xs \<noteq> [] \<Longrightarrow> 0 < j"
    using fill_reply_take [of ?xs full "[]"] empty by auto
  show ?case
  proof (cases "?xs = []")
    case True
    with page j(1) show ?thesis by simp
  next
    case False
    define m where "m = min j (length ?xs)"
    have m: "0 < m" "m \<le> length all - k" "take j ?xs = take m ?xs"
      using j(2) [OF False] False by (auto simp: m_def min_def)
    have "last (take m ?xs) = ?xs ! (m - 1)"
      using m by (simp add: last_conv_nth)
    then have off: "fd_off (last (map dirent_of (take m ?xs))) = int (k + m)"
      using m False by (simp add: last_map dirent_of_def nth_enumerate_eq split: prod.splits)
    have rest: "list_dir os full ino n (int (k + m)) fs w =
        Some (map dirent_of (drop (k + m) (enumerate 0 all)), fs)"
      using m Suc.prems by (intro Suc.IH) auto
    have ne: "map dirent_of (take m ?xs) \<noteq> []" using m False by simp
    have now: "fs_readdir os full ino (int k) fs w = (RDirectory (map dirent_of (take m ?xs)), fs, w)"
      using page [of "int k"] j(1) m(3) by simp
    have drop_k: "drop (k + m) (enumerate 0 all) = drop m ?xs" by (simp add: add.commute)
    have "map dirent_of (take m ?xs) @ map dirent_of (drop (k + m) (enumerate 0 all)) = map dirent_of ?xs"
      unfolding drop_k map_append [symmetric] by (simp only: append_take_drop_id)
    then show ?thesis
      using list_dir_step [OF now ne, unfolded off, OF rest] by simp
  qed
qed simp

section \<open>Properties\<close>

text \<open>
  C14. Listing a directory is complete and ends. For any page size that lets one entry into an
  empty page, the kernel's loop stops after at most one call per entry and one more, and has then
  seen \<^verbatim>\<open>.\<close>, \<^verbatim>\<open>..\<close> and every entry of the backing directory exactly once and in order, each with an
  inode that the table maps to that entry's path, however the entries were split into pages.
\<close>

theorem readdir_lists_everything_once:
  assumes "overlay_inv fs" and "path_of (inodes fs) ino = Some p" and "os_read_dir os p w = Inr es"
    and "table_room (inodes fs) (length (flatten_entries es))"
    and "int (length (flatten_entries es)) + 2 < i64_max"
    and "\<And>e. \<not> full [] e" and "length (flatten_entries es) + 2 < n"
  shows "\<exists>listing fs'. list_dir os full ino n 0 fs w = Some (listing, fs') \<and>
    map fd_name listing = ''.'' # ''..'' # map de_name (flatten_entries es) \<and>
    list_all2 (\<lambda>e d. \<exists>q. path_of (inodes fs') (fd_ino e) = Some q \<and>
        components q = components (path_join p (de_name d)))
      (drop 2 listing) (flatten_entries es)"
proof -
  let ?ents = "flatten_entries es" and ?child = "\<lambda>d. path_join p (de_name d)"
  obtain "is" t where a: "itab.add_all (inodes fs) (map ?child ?ents) = (is, t)" by fastforce
  define found where "found = map2 (\<lambda>i d. (i, entry_file_type d, de_name d)) is ?ents"
  define fs' where "fs' = fs\<lparr>inodes := t\<rparr>"
  have c: "collect_entries p ?ents (inodes fs) = (found, t)" by (simp add: collect_add_all a found_def)
  have wf: "table_wf (inodes fs)" using assms(1) by (simp add: overlay_inv_def table_inv_def)
  have room: "table_room (inodes fs) (length (map ?child ?ents))" using assms(4) by simp
  have maps: "list_all2 (\<lambda>i d. \<exists>q. path_of t i = Some q \<and> components q = components (?child d)) is ?ents"
    using itab.add_all_maps [OF wf room] a by (simp add: list_all2_map2)
  then have len: "length is = length ?ents" by (rule list_all2_lengthD)
  note page = readdir_again [OF assms(1-4) c]
  have same: "fs_readdir os full ino 0 fs w = fs_readdir os full ino 0 fs' w"
    using page [of 0 fs] page [of 0 fs'] by (simp add: fs'_def)
  have "list_dir os full ino n (int 0) fs' w =
      Some (map dirent_of (drop 0 (enumerate 0 (dir_listing ino found))), fs')"
    using assms(5,7) page [of _ fs'] len
    by (intro list_dir_pages assms(6)) (auto simp: fs'_def dir_listing_def found_def)
  moreover have "list_dir os full ino n 0 fs w = list_dir os full ino n 0 fs' w"
    using same by (cases n) simp_all
  ultimately have ld: "list_dir os full ino n 0 fs w =
      Some (map dirent_of (enumerate 0 (dir_listing ino found)), fs')" by simp
  have "map (snd \<circ> snd) found = map de_name ?ents" "map fst found = is"
    using len by (auto simp: found_def map_eq_conv list_eq_iff_nth_eq)
  then show ?thesis
    using ld maps
    by (intro exI [of _ "map dirent_of (enumerate 0 (dir_listing ino found))"] exI [of _ fs'])
      (auto simp: dir_listing_def fs'_def list_all2_conv_all_nth map_enumerate_names nth_enumerate_eq)
qed

definition dir_mem :: mem where
  "dir_mem = demo_mem\<lparr>m_nodes := [(''/s'', plain_node IsDir []), (''/s/a'', plain_node IsFile ''hi''),
     (''/s/b'', plain_node IsFile [])]\<rparr>"

theorem readdir_lists_everything_once_witness:
  "\<exists>listing fs'. list_dir mem_os (\<lambda>buf e. 0 < length buf) 1 5 0 (provfs_new ''/s'' skip_defaults) dir_mem
       = Some (listing, fs') \<and> map fd_name listing = [''.'', ''..'', ''a'', ''b'']"
proof -
  let ?fs = "provfs_new ''/s'' skip_defaults"
  have inv: "overlay_inv ?fs" by (simp add: overlay_inv_def provfs_new_def with_root_inv)
  have p: "path_of (inodes ?fs) 1 = Some ''/s''"
    by (simp add: provfs_new_def with_root_def path_of_def ROOT_INO_def)
  obtain es where es: "os_read_dir mem_os ''/s'' dir_mem = Inr es"
      "flatten_entries es = [\<lparr>de_name = ''a'', de_type = Inr IsFile\<rparr>, \<lparr>de_name = ''b'', de_type = Inr IsFile\<rparr>]"
    by (simp add: mem_os_def dir_mem_def mem_node_def mem_children_def plain_node_def flatten_entries_def
        List.map_filter_def)
  have room: "table_room (inodes ?fs) (length (flatten_entries es))"
    by (simp add: es table_room_def provfs_new_def with_root_def ROOT_INO_def)
  from readdir_lists_everything_once [OF inv p es(1) room, of "\<lambda>buf e. 0 < length buf" 5]
  show ?thesis by (auto simp: es i64_max_def)
qed

end
