(* ===== verification/Provfs_Main.thy ===== *)
theory Provfs_Main
  imports Overlay_Readdir Prov_Cli
begin

text \<open>
  \<^verbatim>\<open>src/main.rs\<close>: the program that mounts the overlay. \<^verbatim>\<open>fuser::mount2\<close>, which serves requests until
  the file system is unmounted, is the parameter \<open>mount2\<close>; the arguments come parsed from \<^verbatim>\<open>clap\<close>.
\<close>

record provfs_cli =
  c_source :: path
  c_mount :: path
  c_skip :: str
  c_foreground :: bool

datatype mount_option = FSName str | DefaultPermissions

type_synonym 'w mount2 = "provfs \<Rightarrow> path \<Rightarrow> mount_option list \<Rightarrow> 'w \<Rightarrow> (io_error + unit) \<times> 'w"

definition provfs_main :: "'w os \<Rightarrow> 'w mount2 \<Rightarrow> provfs_cli \<Rightarrow> 'w \<Rightarrow> exit_code \<times> 'w" where
  "provfs_main os mount2 cli w =
     (if \<not> os_is_dir os (c_source cli) w then (ExitFrom 2, w)
      else if \<not> os_is_dir os (c_mount cli) w then (ExitFrom 2, w)
      else (let sk = (if c_skip cli = [] then skip_defaults else from_user_spec (c_skip cli));
                fs = provfs_new (c_source cli) sk;
                opts = [FSName ''provfs'', DefaultPermissions]
            in case mount2 fs (c_mount cli) opts w of
                 (Inl e, w') \<Rightarrow> (ExitFrom 3, w')
               | (Inr _, w') \<Rightarrow> (SUCCESS, w')))"

lemma from_user_spec_Nil: "from_user_spec [] = skip_defaults"
  by (simp add: from_user_spec_def skip_push_def)

text \<open>
  What is mounted: with two existing directories the program mounts a fresh overlay of the
  source, whose inode table holds the root only and whose skip list is the default list extended
  by the user's, also when the user gave none; otherwise it exits with 2 and mounts nothing. A
  failed mount exits with 3.
\<close>

theorem provfs_main_mounts_fresh_overlay:
  "provfs_main os mount2 cli w =
     (if os_is_dir os (c_source cli) w \<and> os_is_dir os (c_mount cli) w
      then (case mount2 (provfs_new (c_source cli) (from_user_spec (c_skip cli))) (c_mount cli)
                   [FSName ''provfs'', DefaultPermissions] w of
              (Inl e, w') \<Rightarrow> (ExitFrom 3, w')
            | (Inr _, w') \<Rightarrow> (SUCCESS, w'))
      else (ExitFrom 2, w)) \<and>
   overlay_inv (provfs_new (c_source cli) (from_user_spec (c_skip cli)))"
  by (simp add: provfs_main_def Let_def from_user_spec_Nil overlay_inv_def provfs_new_def with_root_inv
      split: sum.splits prod.splits)

end
