(* ===== verification/Repo_Tests.thy ===== *)
theory Repo_Tests
  imports Stampers Provfs_Main
begin

text \<open>
  The tests of the crate, the \<^verbatim>\<open>#[cfg(test)]\<close> modules and \<^verbatim>\<open>tests/integration.rs\<close>, run on the model: one
  definition for each test function, true when every assertion of the test holds and no \<^verbatim>\<open>unwrap\<close>
  in it panics, and a lemma that it is. The model thus agrees with the authors' own examples. Tests
  of pure functions are closed statements. A test that touches files, attributes or \<^verbatim>\<open>/proc\<close> takes
  the file system as a parameter; where the outcome rests on documented behaviour of it (or of
  \<^verbatim>\<open>chrono\<close>), the lemma says on which.
\<close>

section \<open>Durations\<close>

definition parses_hours :: bool where
  "parses_hours \<longleftrightarrow> parse_duration ''24h'' = Inr (24 * 3600)"

definition parses_days :: bool where
  "parses_days \<longleftrightarrow> parse_duration ''7d'' = Inr (7 * 86400)"

definition parses_minutes :: bool where
  "parses_minutes \<longleftrightarrow> parse_duration ''30m'' = Inr (30 * 60)"

definition parses_seconds :: bool where
  "parses_seconds \<longleftrightarrow> parse_duration ''10s'' = Inr 10"

definition rejects_empty :: bool where
  "rejects_empty \<longleftrightarrow> isl (parse_duration '''')"

definition rejects_missing_unit :: bool where
  "rejects_missing_unit \<longleftrightarrow> isl (parse_duration ''24'')"

definition rejects_missing_magnitude :: bool where
  "rejects_missing_magnitude \<longleftrightarrow> isl (parse_duration ''h'')"

definition rejects_unknown_unit :: bool where
  "rejects_unknown_unit \<longleftrightarrow> isl (parse_duration ''24w'')"

definition trims_whitespace :: bool where
  "trims_whitespace \<longleftrightarrow> parse_duration ''  24h  '' = Inr (24 * 3600)"

lemmas duration_tests = parses_hours_def parses_days_def parses_minutes_def parses_seconds_def
  rejects_empty_def rejects_missing_unit_def rejects_missing_magnitude_def rejects_unknown_unit_def
  trims_whitespace_def

lemma trim_results:
  "trim ''24h'' = ''24h''" "trim ''7d'' = ''7d''" "trim ''30m'' = ''30m''" "trim ''10s'' = ''10s''"
  "trim '''' = ''''" "trim ''24'' = ''24''" "trim ''h'' = ''h''" "trim ''24w'' = ''24w''" "trim ''  24h  '' = ''24h''"
  by code_simp+

lemma duration_tests_pass:
  "parses_hours" "parses_days" "parses_minutes" "parses_seconds" "rejects_empty" "rejects_missing_unit"
  "rejects_missing_magnitude" "rejects_unknown_unit" "trims_whitespace"
  by (simp_all add: duration_tests parse_duration_def trim_results is_digit_def parse_u64_digits dec_val_def
      digit_val_def u64_max_def saturating_mul_def Let_def)

section \<open>History\<close>

definition first_push_into_empty :: bool where
  "first_push_into_empty \<longleftrightarrow> push_history '''' ''a'' = ''a''"

definition dedup_when_pushing_existing_head :: bool where
  "dedup_when_pushing_existing_head \<longleftrightarrow> push_history ''a,b,c'' ''a'' = ''a,b,c''"

definition dedup_when_pushing_existing_tail :: bool where
  "dedup_when_pushing_existing_tail \<longleftrightarrow> push_history ''a,b,c'' ''c'' = ''c,a,b''"

definition truncates_at_max :: bool where
  "truncates_at_max \<longleftrightarrow>
     (let prior = ''a,b,c,d,e''; got = push_history prior ''f''
      in got = ''f,a,b,c,d'' \<and> length (split_on CHR '','' got) = MAX_HISTORY)"

definition ignores_whitespace_and_empty_segments :: bool where
  "ignores_whitespace_and_empty_segments \<longleftrightarrow> push_history '' a , , b '' ''c'' = ''c,a,b''"

lemma history_tests_pass:
  "first_push_into_empty" "dedup_when_pushing_existing_head" "dedup_when_pushing_existing_tail"
  "truncates_at_max" "ignores_whitespace_and_empty_segments"
  by code_simp+

section \<open>Sessions\<close>

definition classifies_agentns_id :: bool where
  "classifies_agentns_id \<longleftrightarrow>
     (let i = ''0123456789abcdef0123456789abcdef'' in classify i = AgentNs i)"

fun is_AgentNs :: "session_kind \<Rightarrow> bool" where
  "is_AgentNs (AgentNs i) = True" | "is_AgentNs k = False"

fun is_Opaque :: "session_kind \<Rightarrow> bool" where
  "is_Opaque (Opaque s) = True" | "is_Opaque k = False"

definition agentns_id_is_case_insensitive_hex :: bool where
  "agentns_id_is_case_insensitive_hex \<longleftrightarrow>
     (let i = ''ABCDEF0123456789ABCDEF0123456789'' in is_AgentNs (classify i))"

definition rejects_wrong_length_as_not_agentns :: bool where
  "rejects_wrong_length_as_not_agentns \<longleftrightarrow>
     (let s = ''0123456789abcdef0123456789abcde'' in length s = 31 \<and> is_Opaque (classify s))"

definition classifies_enriched_fallback_full :: bool where
  "classifies_enriched_fallback_full \<longleftrightarrow>
     (let s = ''comm-chain:bash>login>init;env:CLAUDE_TOOL=/build;cwd:/home/jsy;pid:12345;uid:1000''
      in case classify s of
           EnrichedFallback f \<Rightarrow>
             comm_chain f = Some ''bash>login>init'' \<and> env_tag f = Some ''CLAUDE_TOOL=/build'' \<and>
             cwd f = Some ''/home/jsy'' \<and> pid_tag f = Some ''12345'' \<and> uid_tag f = Some ''1000''
         | _ \<Rightarrow> False)"

definition classifies_enriched_fallback_truncated :: bool where
  "classifies_enriched_fallback_truncated \<longleftrightarrow>
     (let s = ''comm-chain:bash;env:CLAUDE_TOOL=/build''
      in case classify s of
           EnrichedFallback f \<Rightarrow>
             comm_chain f = Some ''bash'' \<and> env_tag f = Some ''CLAUDE_TOOL=/build'' \<and>
             cwd f = None \<and> pid_tag f = None \<and> uid_tag f = None
         | _ \<Rightarrow> False)"

definition classifies_legacy_fallback :: bool where
  "classifies_legacy_fallback \<longleftrightarrow>
     (let s = ''comm:claude:pid:1202'' in classify s = LegacyFallback ''claude'' ''1202'')"

definition classifies_opaque_for_unknown_shape :: bool where
  "classifies_opaque_for_unknown_shape \<longleftrightarrow>
     (let s = ''some-random-string'' in classify s = Opaque s)"

lemma session_tests_pass:
  "classifies_agentns_id" "agentns_id_is_case_insensitive_hex" "rejects_wrong_length_as_not_agentns"
  "classifies_enriched_fallback_full" "classifies_enriched_fallback_truncated"
  "classifies_legacy_fallback" "classifies_opaque_for_unknown_shape"
  by code_simp+

section \<open>Skip list\<close>

text \<open>\<^verbatim>\<open>impl Default for SkipList\<close>.\<close>

definition skip_list_default :: skip_list where
  "skip_list_default = skip_defaults"

definition defaults_skip_git_objects :: bool where
  "defaults_skip_git_objects \<longleftrightarrow>
     (let s = skip_defaults
      in should_skip s ''.git/objects/abcd'' \<and> should_skip s ''repo/.git/HEAD'' \<and>
         should_skip s ''frontend/node_modules/react/package.json'' \<and>
         should_skip s ''rust-crate/target/debug/foo'')"

definition defaults_pass_through_normal_paths :: bool where
  "defaults_pass_through_normal_paths \<longleftrightarrow>
     (let s = skip_defaults
      in \<not> should_skip s ''notes.md'' \<and> \<not> should_skip s ''src/main.rs'' \<and> \<not> should_skip s ''Cargo.toml'')"

definition user_spec_layered_on_defaults :: bool where
  "user_spec_layered_on_defaults \<longleftrightarrow>
     (let s = from_user_spec ''logs/,tmp/''
      in should_skip s ''logs/build.log'' \<and> should_skip s ''tmp/foo'' \<and> should_skip s ''.git/HEAD'' \<and>
         \<not> should_skip s ''README.md'')"

definition empty_list_skips_nothing :: bool where
  "empty_list_skips_nothing \<longleftrightarrow> (let s = skip_empty in \<not> should_skip s ''.git/HEAD'')"

lemma skip_tests_pass:
  "defaults_skip_git_objects" "defaults_pass_through_normal_paths" "user_spec_layered_on_defaults"
  "empty_list_skips_nothing"
  by code_simp+

section \<open>The inode table\<close>

text \<open>For any directory in the place of the temporary one; paths are compared as \<^verbatim>\<open>PathBuf\<close> does.\<close>

definition inode_table_assigns_unique_inodes :: "path \<Rightarrow> bool" where
  "inode_table_assigns_unique_inodes dir \<longleftrightarrow>
     (let t = with_root dir
      in map_option components (path_of t ROOT_INO) = Some (components dir) \<and>
         (let a = path_join dir ''a''; b = path_join dir ''b'';
              (ino_a, t) = intern t a;
              (ino_b, t) = intern t b
          in ino_a \<noteq> ino_b \<and> ino_a \<noteq> ROOT_INO \<and> fst (intern t a) = ino_a))"

definition inode_table_forget_drops_both_directions :: "path \<Rightarrow> bool" where
  "inode_table_forget_drops_both_directions dir \<longleftrightarrow>
     (let t = with_root dir; a = path_join dir ''a'';
          (ino, t) = intern t a
      in path_of t ino \<noteq> None \<and>
         (let t = forget_path t a
          in path_of t ino = None \<and> (let (new, t) = intern t a in new \<noteq> ino)))"

definition should_stamp_respects_skiplist :: bool where
  "should_stamp_respects_skiplist \<longleftrightarrow>
     (let s = skip_defaults in should_stamp ''notes.md'' s \<and> \<not> should_stamp ''.git/HEAD'' s)"

lemma inode_table_tests_pass:
  "inode_table_assigns_unique_inodes dir" "inode_table_forget_drops_both_directions dir"
  by (simp_all add: inode_table_assigns_unique_inodes_def inode_table_forget_drops_both_directions_def
      table_defs ROOT_INO_def components_join file_name_def)

lemma should_stamp_test_passes: "should_stamp_respects_skiplist"
  by code_simp

section \<open>Identity\<close>

definition resolve_falls_back_to_comm_when_no_env :: "'w os \<Rightarrow> 'w \<Rightarrow> bool" where
  "resolve_falls_back_to_comm_when_no_env os w \<longleftrightarrow>
     (let i = resolve_identity os 1 w in prefix ''comm:'' (session i) \<and> tool i \<noteq> [])"

definition resolve_nonexistent_pid_yields_unknown :: "'w os \<Rightarrow> 'w \<Rightarrow> bool" where
  "resolve_nonexistent_pid_yields_unknown os w \<longleftrightarrow>
     (let i = resolve_identity os 4000000 w in prefix ''comm:unknown:'' (session i))"

text \<open>
  The first test relies on the environment of process 1, as its comment says: neither a session nor
  a tool may be set there, and the process must have a name.
\<close>

lemma resolve_fallback_test_passes:
  assumes "last_value (read_environ os 1 w) ''CLAUDE_SESSION'' = None"
    and "last_value (read_environ os 1 w) ''CLAUDE_TOOL'' = None"
    and "read_comm os 1 w \<noteq> Some []"
  shows "resolve_falls_back_to_comm_when_no_env os w"
  using assms
  by (cases "read_comm os 1 w")
    (auto simp: resolve_falls_back_to_comm_when_no_env_def resolve_identity_def foldl_env_step
      fallback_session_def Let_def)

lemma resolve_nonexistent_test_passes:
  assumes "os_read_file os (proc_path 4000000 ''environ'') w = Inl e"
    and "os_read_file os (proc_path 4000000 ''comm'') w = Inl e'"
  shows "resolve_nonexistent_pid_yields_unknown os w"
  using assms
  by (simp add: resolve_nonexistent_pid_yields_unknown_def identity_defs foldl_env_step last_value_def Let_def)

section \<open>Timestamps and records\<close>

definition parse_ts_accepts_unix_seconds :: "chrono \<Rightarrow> bool" where
  "parse_ts_accepts_unix_seconds ch \<longleftrightarrow> ts_unix (parse_ts ch ''1717123456'') = Some 1717123456"

definition parse_ts_accepts_rfc3339 :: "chrono \<Rightarrow> bool" where
  "parse_ts_accepts_rfc3339 ch \<longleftrightarrow> ts_unix (parse_ts ch ''2026-05-24T00:00:00Z'') = Some 1779580800"

definition parse_ts_rejects_garbage :: "chrono \<Rightarrow> bool" where
  "parse_ts_rejects_garbage ch \<longleftrightarrow>
     (let info = parse_ts ch ''not-a-timestamp'' in ts_unix info = None \<and> ts_raw info = ''not-a-timestamp'')"

definition render_local_produces_nonempty_string :: "chrono \<Rightarrow> bool" where
  "render_local_produces_nonempty_string ch \<longleftrightarrow>
     (case render_local ch 1717123456 of None \<Rightarrow> False | Some s \<Rightarrow> s \<noteq> [])"

definition parse_history_splits_and_trims :: bool where
  "parse_history_splits_and_trims \<longleftrightarrow> parse_history ''a, b ,c'' = [''a'', ''b'', ''c'']"

definition parse_history_caps_at_max :: bool where
  "parse_history_caps_at_max \<longleftrightarrow> (let raw = ''a,b,c,d,e,f,g'' in length (parse_history raw) = MAX_HISTORY)"

text \<open>\<^verbatim>\<open>ProvRecord::default()\<close>.\<close>

definition record_default :: prov_record where
  "record_default = \<lparr>r_session = None, r_tool = None, r_turn = None, r_intent = None, r_ts = None, r_history = None\<rparr>"

definition empty_record_reports_is_empty :: bool where
  "empty_record_reports_is_empty \<longleftrightarrow> record_is_empty record_default"

definition nonempty_record_reports_not_empty :: bool where
  "nonempty_record_reports_not_empty \<longleftrightarrow>
     (let r = record_default\<lparr>r_tool := Some ''Edit''\<rparr> in \<not> record_is_empty r)"

lemma number_texts:
  "trim ''1717123456'' = ''1717123456''" "trim ''2026-05-24T00:00:00Z'' = ''2026-05-24T00:00:00Z''"
  "trim ''not-a-timestamp'' = ''not-a-timestamp''"
  by code_simp+

lemma timestamp_tests_pass:
  "parse_ts_accepts_unix_seconds ch"
  "ch_parse_rfc3339 ch ''2026-05-24T00:00:00Z'' = Some 1779580800 \<Longrightarrow> parse_ts_accepts_rfc3339 ch"
  "ch_parse_rfc3339 ch ''not-a-timestamp'' = None \<Longrightarrow> parse_ts_rejects_garbage ch"
  "ch_in_range ch 1717123456 \<Longrightarrow> ch_format_local ch 1717123456 \<noteq> [] \<Longrightarrow> render_local_produces_nonempty_string ch"
  by (simp_all add: parse_ts_accepts_unix_seconds_def parse_ts_accepts_rfc3339_def parse_ts_rejects_garbage_def
      render_local_produces_nonempty_string_def parse_ts_def number_texts parse_i64_def parse_digits_def
      is_digit_def dec_val_def digit_val_def i64_min_def i64_max_def render_local_def Let_def)

lemma record_tests_pass:
  "parse_history_splits_and_trims" "parse_history_caps_at_max" "empty_record_reports_is_empty"
  "nonempty_record_reports_not_empty"
  by code_simp+

section \<open>Attributes on real files\<close>

text \<open>
  What only the tests call: the temporary directory, \<^verbatim>\<open>File::create\<close> and \<^verbatim>\<open>fs::write\<close> (a new file with
  the given contents), \<^verbatim>\<open>fs::create_dir\<close>, \<^verbatim>\<open>xattr::remove\<close> with its result ignored. A test that would
  panic in an \<^verbatim>\<open>unwrap\<close> is false.
\<close>

record 'w test_env =
  te_dir :: path
  te_write :: "path \<Rightarrow> bytes \<Rightarrow> ('w, unit) io"
  te_create_dir :: "path \<Rightarrow> ('w, unit) io"
  te_xattr_remove :: "path \<Rightarrow> str \<Rightarrow> 'w \<Rightarrow> 'w"

definition unwrap_then :: "('w, unit) io \<Rightarrow> ('w \<Rightarrow> bool) \<Rightarrow> 'w \<Rightarrow> bool" where
  "unwrap_then m k w = (case m w of (Inl e, w') \<Rightarrow> False | (Inr u, w') \<Rightarrow> k w')"

definition xattr_supported :: "'w os \<Rightarrow> 'w test_env \<Rightarrow> path \<Rightarrow> 'w \<Rightarrow> bool \<times> 'w" where
  "xattr_supported os te p w =
     (let probe = ''user.provfs.probe''
      in case os_xattr_set os p probe ''1'' w of
           (Inr _, w') \<Rightarrow> (True, te_xattr_remove te p probe w')
         | (Inl _, w') \<Rightarrow> (False, w'))"

definition reader_xattr_supported :: "'w os \<Rightarrow> 'w test_env \<Rightarrow> path \<Rightarrow> 'w \<Rightarrow> bool \<times> 'w" where
  "reader_xattr_supported os te p w =
     (let probe = ''user.provfs_reader.probe''
      in case os_xattr_set os p probe ''1'' w of
           (Inr _, w') \<Rightarrow> (True, te_xattr_remove te p probe w')
         | (Inl _, w') \<Rightarrow> (False, w'))"

definition stamp_writes_canonical_keys :: "'w os \<Rightarrow> 'w test_env \<Rightarrow> 'w \<Rightarrow> bool" where
  "stamp_writes_canonical_keys os te =
     (let p = path_join (te_dir te) ''a.txt''
      in unwrap_then (te_write te p []) (\<lambda>w.
           let (supported, w) = xattr_supported os te p w
           in if \<not> supported then True
              else let i = \<lparr>session = ''S1'', tool = ''Edit'', turn = Some ''3'', intent = Some ''self-review''\<rparr>
                   in unwrap_then (stamp os p i ''2026-05-24T00:00:00Z'') (\<lambda>w.
                        read_str os p KEY_SESSION w = Some ''S1'' \<and> read_str os p KEY_TOOL w = Some ''Edit'' \<and>
                        read_str os p KEY_TURN w = Some ''3'' \<and>
                        read_str os p KEY_INTENT w = Some ''self-review'' \<and>
                        read_str os p KEY_TS w = Some ''2026-05-24T00:00:00Z'' \<and>
                        read_str os p KEY_HISTORY w = Some ''S1'') w))"

definition history_grows_mru_first :: "'w os \<Rightarrow> 'w test_env \<Rightarrow> 'w \<Rightarrow> bool" where
  "history_grows_mru_first os te =
     (let p = path_join (te_dir te) ''b.txt''
      in unwrap_then (te_write te p []) (\<lambda>w.
           let (supported, w) = xattr_supported os te p w
           in if \<not> supported then True
              else let s1 = \<lparr>session = ''S1'', tool = ''t'', turn = None, intent = None\<rparr>;
                       s2 = \<lparr>session = ''S2'', tool = ''t'', turn = None, intent = None\<rparr>
                   in unwrap_then (stamp os p s1 ''t'')
                        (unwrap_then (stamp os p s2 ''t'') (\<lambda>w.
                           read_str os p KEY_HISTORY w = Some ''S2,S1'')) w))"

definition read_record_round_trips_real_xattrs :: "'w os \<Rightarrow> 'w test_env \<Rightarrow> 'w \<Rightarrow> bool" where
  "read_record_round_trips_real_xattrs os te =
     (let file = path_join (te_dir te) ''note.txt''
      in unwrap_then (te_write te file ''hi'') (\<lambda>w.
           let (supported, w) = reader_xattr_supported os te file w
           in if \<not> supported then True
              else unwrap_then (os_xattr_set os file KEY_SESSION ''01234567890abcdef01234567890abc'')
                     (unwrap_then (os_xattr_set os file KEY_TOOL ''Edit'')
                     (unwrap_then (os_xattr_set os file KEY_TS ''1717123456'') (\<lambda>w.
                        case read_record os file w of
                          Inl e \<Rightarrow> False
                        | Inr r \<Rightarrow>
                            r_session r = Some ''01234567890abcdef01234567890abc'' \<and> r_tool r = Some ''Edit'' \<and>
                            r_ts r = Some ''1717123456'' \<and> r_turn r = None \<and> \<not> record_is_empty r))) w))"

definition read_record_on_unstamped_file_is_empty_not_error :: "'w os \<Rightarrow> 'w test_env \<Rightarrow> 'w \<Rightarrow> bool" where
  "read_record_on_unstamped_file_is_empty_not_error os te =
     (let file = path_join (te_dir te) ''plain.txt''
      in unwrap_then (te_write te file ''hi'') (\<lambda>w.
           case read_record os file w of Inl e \<Rightarrow> False | Inr r \<Rightarrow> record_is_empty r))"

definition read_record_on_missing_path_errors :: "'w os \<Rightarrow> 'w test_env \<Rightarrow> 'w \<Rightarrow> bool" where
  "read_record_on_missing_path_errors os te w =
     (let missing = path_join (te_dir te) ''does-not-exist.txt'' in isl (read_record os missing w))"

text \<open>The attribute is set with \<^verbatim>\<open>unwrap\<close> only where attributes are supported; then the walk.\<close>

definition walk_files_finds_stamped_file_recursively :: "'w os \<Rightarrow> 'w test_env \<Rightarrow> 'w \<Rightarrow> bool" where
  "walk_files_finds_stamped_file_recursively os te =
     (let sub = path_join (te_dir te) ''sub''; file = path_join sub ''note.txt'';
          walk = (\<lambda>w. case walk_files os (te_dir te) w of
                        None \<Rightarrow> False
                      | Some out \<Rightarrow> list_ex (\<lambda>e. components (we_path e) = components file) out)
      in unwrap_then (te_create_dir te sub)
           (unwrap_then (te_write te file ''hi'') (\<lambda>w.
              let (supported, w) = reader_xattr_supported os te file w
              in if supported then unwrap_then (os_xattr_set os file KEY_TOOL ''Edit'') walk w else walk w)))"

text \<open>
  The documented behaviour the tests rely on, for the path of one test file: attributes behave and
  can be set on existing files (\<open>P\<close> holds of worlds where the file exists), a created file has no
  provenance attributes, removing an attribute leaves the others.
\<close>

definition fresh_attrs :: "'w os \<Rightarrow> path \<Rightarrow> 'w \<Rightarrow> bool" where
  "fresh_attrs os p w \<longleftrightarrow> (\<forall>key \<in> set prov_keys. attr os p w key = Inr None)"

definition test_fs :: "'w os \<Rightarrow> 'w test_env \<Rightarrow> path \<Rightarrow> ('w \<Rightarrow> bool) \<Rightarrow> bool" where
  "test_fs os te p P \<longleftrightarrow>
     xattr_backend os p \<and> settable os p P \<and>
     (\<forall>w d. \<exists>w'. te_write te p d w = (Inr (), w') \<and> P w' \<and> fresh_attrs os p w') \<and>
     (\<forall>w key. P w \<longrightarrow> P (te_xattr_remove te p key w) \<and>
        (\<forall>k. k \<noteq> key \<longrightarrow> attr os p (te_xattr_remove te p key w) k = attr os p w k)) \<and>
     (\<forall>w. P w \<longrightarrow> os_symlink_metadata os p w = Inr ())"

lemma test_fs_write:
  assumes "test_fs os te p P"
  obtains w' where "te_write te p d w = (Inr (), w')" and "P w'" and "fresh_attrs os p w'"
  using assms unfolding test_fs_def by blast

lemma test_fs_set:
  assumes "test_fs os te p P" and "P w"
  obtains w' where "os_xattr_set os p key v w = (Inr (), w')" and "P w'"
    and "attr os p w' = (attr os p w)(key := Inr (Some v))"
proof -
  have "settable os p P" and be: "xattr_backend os p" using assms(1) by (simp_all add: test_fs_def)
  then obtain w' where w': "os_xattr_set os p key v w = (Inr (), w')" "P w'"
    using assms(2) unfolding settable_def by blast
  with write_str_attr [OF be, of key v w w'] that show thesis by (simp add: write_str_def)
qed

lemma test_fs_probe:
  assumes "test_fs os te p P" and "P w" and "fresh_attrs os p w"
  shows "\<exists>w'. xattr_supported os te p w = (True, w') \<and> P w' \<and> fresh_attrs os p w'"
    and "\<exists>w'. reader_xattr_supported os te p w = (True, w') \<and> P w' \<and> fresh_attrs os p w'"
proof -
  have probe: "\<exists>w1. os_xattr_set os p key ''1'' w = (Inr (), w1) \<and>
      P (te_xattr_remove te p key w1) \<and> fresh_attrs os p (te_xattr_remove te p key w1)"
    if "key \<notin> set prov_keys" for key
  proof -
    obtain w1 where w1: "os_xattr_set os p key ''1'' w = (Inr (), w1)" "P w1"
      "attr os p w1 = (attr os p w)(key := Inr (Some ''1''))"
      by (rule test_fs_set [OF assms(1,2)])
    from assms(1) w1(2) have rem: "P (te_xattr_remove te p key w1)"
      "k \<noteq> key \<Longrightarrow> attr os p (te_xattr_remove te p key w1) k = attr os p w1 k" for k
      unfolding test_fs_def by blast+
    have "fresh_attrs os p (te_xattr_remove te p key w1)"
      unfolding fresh_attrs_def
    proof
      fix k assume k: "k \<in> set prov_keys"
      with that have "k \<noteq> key" by blast
      with rem(2) w1(3) assms(3) k show "attr os p (te_xattr_remove te p key w1) k = Inr None"
        by (simp add: fresh_attrs_def)
    qed
    with w1(1) rem(1) show ?thesis by blast
  qed
  have "''user.provfs.probe'' \<notin> set prov_keys" "''user.provfs_reader.probe'' \<notin> set prov_keys"
    by (simp_all add: prov_keys_def key_defs)
  from probe [OF this(1)] probe [OF this(2)]
  show "\<exists>w'. xattr_supported os te p w = (True, w') \<and> P w' \<and> fresh_attrs os p w'"
    "\<exists>w'. reader_xattr_supported os te p w = (True, w') \<and> P w' \<and> fresh_attrs os p w'"
    by (auto simp: xattr_supported_def reader_xattr_supported_def)
qed

text \<open>On such a path a stamp succeeds.\<close>

lemma settable_stamp:
  assumes "settable os p P" and "P w"
  shows "\<exists>w'. stamp os p i now w = (Inr (), w') \<and> P w'"
proof -
  have str: "\<exists>w'. write_str os p key v w = (Inr (), w') \<and> P w'" if "P w" for key v w
    using assms(1) that by (simp add: settable_def write_str_def)
  then have opt: "\<exists>w'. write_opt os p key ov w = (Inr (), w') \<and> P w'" if "P w" for key ov w
    using that by (cases ov) (auto simp: write_opt_def)
  have seq: "\<exists>w'. io_then m k w = (Inr (), w') \<and> P w'"
    if "\<exists>w'. m w = (Inr (), w') \<and> P w'" "\<And>w. P w \<Longrightarrow> \<exists>w'. k w = (Inr (), w') \<and> P w'"
    for m k :: "('a, unit) io" and w
    using that by (auto simp: io_then_def)
  show ?thesis unfolding stamp_def
    by (intro seq str opt) (simp_all add: assms(2) advance_history_def str)
qed

lemma read_str_attr: "attr os p w key = Inr (Some v) \<Longrightarrow> utf8_valid v \<Longrightarrow> read_str os p key w = Some v"
  by (simp add: attr_def read_str_def from_utf8_def)

lemma test_fs_stamp:
  assumes "test_fs os te p P" and "P w"
  obtains w' where "stamp os p i now w = (Inr (), w')" and "P w'"
    and "attr os p w' = (upd_opt KEY_INTENT (intent i) (upd_opt KEY_TURN (turn i) (attr os p w)))
      (KEY_SESSION := Inr (Some (session i)), KEY_TOOL := Inr (Some (tool i)), KEY_TS := Inr (Some now),
       KEY_HISTORY := Inr (Some (push_history (prior_history os p w) (session i))))"
proof -
  have be: "xattr_backend os p" and "settable os p P" using assms(1) by (simp_all add: test_fs_def)
  from settable_stamp [OF this(2) assms(2), of i now] obtain w' where w': "stamp os p i now w = (Inr (), w')" "P w'"
    by blast
  from that [OF w' stamp_attrs [OF be w'(1)]] show thesis .
qed

lemma fresh_no_history: "fresh_attrs os p w \<Longrightarrow> prior_history os p w = []"
  by (simp add: fresh_attrs_def prior_history_def read_str_def attr_def prov_keys_def)

text \<open>Both stamping tests pass on every file system with this behaviour.\<close>

lemma stamp_writes_canonical_keys_passes:
  assumes fs: "test_fs os te (path_join (te_dir te) ''a.txt'') P"
  shows "stamp_writes_canonical_keys os te w"
proof -
  let ?p = "path_join (te_dir te) ''a.txt''"
  let ?i = "\<lparr>session = ''S1'', tool = ''Edit'', turn = Some ''3'', intent = Some ''self-review''\<rparr>"
  obtain w1 where w1: "te_write te ?p [] w = (Inr (), w1)" "P w1" "fresh_attrs os ?p w1"
    by (rule test_fs_write [OF fs])
  obtain w2 where w2: "xattr_supported os te ?p w1 = (True, w2)" "P w2" "fresh_attrs os ?p w2"
    using test_fs_probe(1) [OF fs w1(2,3)] by blast
  obtain w3 where w3: "stamp os ?p ?i ''2026-05-24T00:00:00Z'' w2 = (Inr (), w3)"
    and attrs: "attr os ?p w3 = (upd_opt KEY_INTENT (intent ?i) (upd_opt KEY_TURN (turn ?i) (attr os ?p w2)))
      (KEY_SESSION := Inr (Some (session ?i)), KEY_TOOL := Inr (Some (tool ?i)),
       KEY_TS := Inr (Some ''2026-05-24T00:00:00Z''),
       KEY_HISTORY := Inr (Some (push_history (prior_history os ?p w2) (session ?i))))"
    by (rule test_fs_stamp [OF fs w2(2)])
  have push: "push_history [] ''S1'' = ''S1''" by code_simp
  have utf8: "utf8_valid ''S1''" "utf8_valid ''Edit''" "utf8_valid ''3''" "utf8_valid ''self-review''"
    "utf8_valid ''2026-05-24T00:00:00Z''" by code_simp+
  have "read_str os ?p KEY_SESSION w3 = Some ''S1''" "read_str os ?p KEY_TOOL w3 = Some ''Edit''"
    "read_str os ?p KEY_TURN w3 = Some ''3''" "read_str os ?p KEY_INTENT w3 = Some ''self-review''"
    "read_str os ?p KEY_TS w3 = Some ''2026-05-24T00:00:00Z''" "read_str os ?p KEY_HISTORY w3 = Some ''S1''"
    by (rule read_str_attr; simp add: attrs fresh_no_history [OF w2(3)] upd_opt_def push utf8)+
  with w1(1) w2(1) w3 show ?thesis by (simp add: stamp_writes_canonical_keys_def unwrap_then_def Let_def)
qed

lemma history_grows_mru_first_passes:
  assumes fs: "test_fs os te (path_join (te_dir te) ''b.txt'') P"
  shows "history_grows_mru_first os te w"
proof -
  let ?p = "path_join (te_dir te) ''b.txt''"
  let ?s1 = "\<lparr>session = ''S1'', tool = ''t'', turn = None, intent = None\<rparr>"
  let ?s2 = "\<lparr>session = ''S2'', tool = ''t'', turn = None, intent = None\<rparr>"
  obtain w1 where w1: "te_write te ?p [] w = (Inr (), w1)" "P w1" "fresh_attrs os ?p w1"
    by (rule test_fs_write [OF fs])
  obtain w2 where w2: "xattr_supported os te ?p w1 = (True, w2)" "P w2" "fresh_attrs os ?p w2"
    using test_fs_probe(1) [OF fs w1(2,3)] by blast
  obtain w3 where w3: "stamp os ?p ?s1 ''t'' w2 = (Inr (), w3)" "P w3"
    and h3: "attr os ?p w3 KEY_HISTORY = Inr (Some (push_history (prior_history os ?p w2) ''S1''))"
    by (rule test_fs_stamp [OF fs w2(2), of ?s1 "''t''"]) simp
  obtain w4 where w4: "stamp os ?p ?s2 ''t'' w3 = (Inr (), w4)"
    and h4: "attr os ?p w4 KEY_HISTORY = Inr (Some (push_history (prior_history os ?p w3) ''S2''))"
    by (rule test_fs_stamp [OF fs w3(2), of ?s2 "''t''"]) simp
  have push: "push_history [] ''S1'' = ''S1''" "push_history ''S1'' ''S2'' = ''S2,S1''" by code_simp+
  have utf8: "utf8_valid ''S1''" "utf8_valid ''S2,S1''" by code_simp+
  have "read_str os ?p KEY_HISTORY w3 = Some ''S1''"
    using h3 utf8 by (intro read_str_attr) (simp_all add: fresh_no_history [OF w2(3)] push)
  then have "read_str os ?p KEY_HISTORY w4 = Some ''S2,S1''"
    using h4 utf8 by (intro read_str_attr) (simp_all add: prior_history_def push)
  with w1(1) w2(1) w3(1) w4 show ?thesis by (simp add: history_grows_mru_first_def unwrap_then_def Let_def)
qed

text \<open>So do the tests of \<open>read_record\<close>.\<close>

lemma get_key_None: "attr os p w key = Inr None \<Longrightarrow> get_key os p key w = Inr None"
  by (simp add: attr_def get_key_def)

lemma test_fs_meta: "test_fs os te p P \<Longrightarrow> P w \<Longrightarrow> os_symlink_metadata os p w = Inr ()"
  by (simp add: test_fs_def)

lemma read_record_round_trips_passes:
  assumes fs: "test_fs os te (path_join (te_dir te) ''note.txt'') P"
  shows "read_record_round_trips_real_xattrs os te w"
proof -
  let ?p = "path_join (te_dir te) ''note.txt''"
  let ?s = "''01234567890abcdef01234567890abc''" and ?t = "''1717123456''"
  obtain w1 where w1: "te_write te ?p ''hi'' w = (Inr (), w1)" "P w1" "fresh_attrs os ?p w1"
    by (rule test_fs_write [OF fs])
  obtain w2 where w2: "reader_xattr_supported os te ?p w1 = (True, w2)" "P w2" "fresh_attrs os ?p w2"
    using test_fs_probe(2) [OF fs w1(2,3)] by blast
  obtain w3 where w3: "os_xattr_set os ?p KEY_SESSION ?s w2 = (Inr (), w3)" "P w3"
    "attr os ?p w3 = (attr os ?p w2)(KEY_SESSION := Inr (Some ?s))"
    by (rule test_fs_set [OF fs w2(2)])
  obtain w4 where w4: "os_xattr_set os ?p KEY_TOOL ''Edit'' w3 = (Inr (), w4)" "P w4"
    "attr os ?p w4 = (attr os ?p w3)(KEY_TOOL := Inr (Some ''Edit''))"
    by (rule test_fs_set [OF fs w3(2)])
  obtain w5 where w5: "os_xattr_set os ?p KEY_TS ?t w4 = (Inr (), w5)" "P w5"
    "attr os ?p w5 = (attr os ?p w4)(KEY_TS := Inr (Some ?t))"
    by (rule test_fs_set [OF fs w4(2)])
  have utf8: "utf8_valid ?s" "utf8_valid ''Edit''" "utf8_valid ?t" by code_simp+
  have "get_key os ?p KEY_SESSION w5 = Inr (Some ?s)" "get_key os ?p KEY_TOOL w5 = Inr (Some ''Edit'')"
    "get_key os ?p KEY_TS w5 = Inr (Some ?t)"
    using get_key_attr [of os ?p w5 KEY_SESSION ?s] get_key_attr [of os ?p w5 KEY_TOOL "''Edit''"]
      get_key_attr [of os ?p w5 KEY_TS ?t] by (simp_all add: w5(3) w4(3) w3(3) utf8)
  moreover have "get_key os ?p KEY_TURN w5 = Inr None" "get_key os ?p KEY_INTENT w5 = Inr None"
    "get_key os ?p KEY_HISTORY w5 = Inr None"
    using w2(3) by (simp_all add: get_key_None w5(3) w4(3) w3(3) fresh_attrs_def prov_keys_def)
  ultimately have "read_record os ?p w5 = Inr \<lparr>r_session = Some ?s, r_tool = Some ''Edit'', r_turn = None,
      r_intent = None, r_ts = Some ?t, r_history = None\<rparr>"
    using test_fs_meta [OF fs w5(2)] by (simp add: read_record_Inr)
  with w1(1) w2(1) w3(1) w4(1) w5(1) show ?thesis
    by (simp add: read_record_round_trips_real_xattrs_def unwrap_then_def Let_def record_is_empty_def)
qed

lemma read_record_unstamped_passes:
  assumes fs: "test_fs os te (path_join (te_dir te) ''plain.txt'') P"
  shows "read_record_on_unstamped_file_is_empty_not_error os te w"
proof -
  let ?p = "path_join (te_dir te) ''plain.txt''"
  obtain w1 where w1: "te_write te ?p ''hi'' w = (Inr (), w1)" "P w1" "fresh_attrs os ?p w1"
    by (rule test_fs_write [OF fs])
  then have "read_record os ?p w1 = Inr record_default"
    using test_fs_meta [OF fs w1(2)]
    by (simp add: read_record_Inr record_default_def get_key_None fresh_attrs_def prov_keys_def)
  with w1(1) show ?thesis
    by (simp add: read_record_on_unstamped_file_is_empty_not_error_def unwrap_then_def Let_def
        record_default_def record_is_empty_def)
qed

lemma read_record_missing_passes:
  assumes "os_symlink_metadata os (path_join (te_dir te) ''does-not-exist.txt'') w = Inl e"
  shows "read_record_on_missing_path_errors os te w"
  using assms by (simp add: read_record_on_missing_path_errors_def read_record_def)

text \<open>The walk, and all the others, on the file system in memory.\<close>

definition mem_test_env :: "mem test_env" where
  "mem_test_env =
     \<lparr>te_dir = ''/tmp/t'',
      te_write = (\<lambda>p d m. (Inr (), mem_put p (plain_node IsFile d) m)),
      te_create_dir = (\<lambda>p m. (Inr (), mem_put p (plain_node IsDir []) m)),
      te_xattr_remove = (\<lambda>p k m. snd (mem_on p m (n_xattrs_update (AList.delete k))))\<rparr>"

lemma mem_test_fs: "test_fs mem_os mem_test_env p (\<lambda>m. mem_node m p \<noteq> None)"
proof -
  have "fresh_attrs mem_os p (mem_put p (plain_node IsFile d) m)" for d m
    by (simp add: fresh_attrs_def attr_def mem_os_def plain_node_def)
  moreover have "attr mem_os p (te_xattr_remove mem_test_env p key m) k = attr mem_os p m k" if "k \<noteq> key" for key k m
    using that by (auto simp: attr_def mem_os_def mem_test_env_def mem_on_def map_of_delete delete_conv' split: option.split)
  ultimately show ?thesis
    using mem_xattr_backend [of p] mem_settable [of p]
    by (auto simp: test_fs_def) (auto simp: mem_test_env_def mem_on_def mem_os_def split: option.splits)
qed

definition test_mem :: mem where
  "test_mem = (mem_files [])\<lparr>m_nodes := [(''/tmp/t'', plain_node IsDir [])]\<rparr>"

lemma walk_lists:
  assumes "depth_below os w n root" and "file_below os w root f"
  shows "\<exists>out. walk_files os root w = Some out \<and> list_ex (\<lambda>e. components (we_path e) = components f) out"
  using walk_files_tree [OF assms(1)] tree_files_complete [OF assms(2,1)] by (force simp: list_ex_iff)

text \<open>The directory after the test's set-up.\<close>

definition walk_mem :: "(str \<times> bytes) list \<Rightarrow> mem" where
  "walk_mem xs = test_mem\<lparr>m_nodes :=
     [(''/tmp/t'', plain_node IsDir []), (''/tmp/t/sub'', plain_node IsDir []),
      (''/tmp/t/sub/note.txt'', plain_node IsFile ''hi''\<lparr>n_xattrs := xs\<rparr>)]\<rparr>"

lemma walk_setup:
  "path_join ''/tmp/t'' ''sub'' = ''/tmp/t/sub''" "path_join ''/tmp/t/sub'' ''note.txt'' = ''/tmp/t/sub/note.txt''"
  "mem_put ''/tmp/t/sub/note.txt'' (plain_node IsFile ''hi'') (mem_put ''/tmp/t/sub'' (plain_node IsDir []) test_mem) =
     walk_mem []"
  "reader_xattr_supported mem_os mem_test_env ''/tmp/t/sub/note.txt'' (walk_mem []) = (True, walk_mem [])"
  "os_xattr_set mem_os ''/tmp/t/sub/note.txt'' KEY_TOOL ''Edit'' (walk_mem []) = (Inr (), walk_mem [(KEY_TOOL, ''Edit'')])"
  by (simp_all add: path_join_def has_root_def mem_put_def test_mem_def walk_mem_def plain_node_def
      reader_xattr_supported_def mem_os_def mem_test_env_def mem_on_def mem_node_def)

lemma walk_dirs:
  "os_read_dir mem_os ''/tmp/t'' (walk_mem xs) = Inr [Inr \<lparr>de_name = ''sub'', de_type = Inr IsDir\<rparr>]"
  "os_read_dir mem_os ''/tmp/t/sub'' (walk_mem xs) = Inr [Inr \<lparr>de_name = ''note.txt'', de_type = Inr IsFile\<rparr>]"
  by (simp_all add: mem_os_def mem_node_def walk_mem_def mem_children_def plain_node_def)

lemma walk_test_passes: "walk_files_finds_stamped_file_recursively mem_os mem_test_env test_mem"
proof -
  let ?w = "walk_mem [(KEY_TOOL, ''Edit'')]"
  have "file_below mem_os ?w ''/tmp/t/sub'' ''/tmp/t/sub/note.txt''"
    using file_below.here [OF walk_dirs(2)] by (simp add: walk_setup)
  then have below: "file_below mem_os ?w ''/tmp/t'' ''/tmp/t/sub/note.txt''"
    using file_below.deeper [OF walk_dirs(1), of "\<lparr>de_name = ''sub'', de_type = Inr IsDir\<rparr>"] by (simp add: walk_setup)
  have "depth_below mem_os ?w 2 ''/tmp/t''"
    by (simp add: numeral_2_eq_2 walk_dirs subdirs_def List.map_filter_def walk_setup)
  from walk_lists [OF this below] show ?thesis
    by (auto simp: walk_files_finds_stamped_file_recursively_def unwrap_then_def Let_def mem_test_env_def
        walk_setup walk_setup [unfolded mem_test_env_def])
qed

text \<open>The tests above that take a file system, on the one in memory.\<close>

lemma file_tests_pass_in_memory:
  "stamp_writes_canonical_keys mem_os mem_test_env w" "history_grows_mru_first mem_os mem_test_env w"
  "read_record_round_trips_real_xattrs mem_os mem_test_env w"
  "read_record_on_unstamped_file_is_empty_not_error mem_os mem_test_env w"
  "read_record_on_missing_path_errors mem_os mem_test_env test_mem"
proof -
  note fs = mem_test_fs [of "path_join (te_dir mem_test_env) name" for name]
  show "stamp_writes_canonical_keys mem_os mem_test_env w" by (rule stamp_writes_canonical_keys_passes [OF fs])
  show "history_grows_mru_first mem_os mem_test_env w" by (rule history_grows_mru_first_passes [OF fs])
  show "read_record_round_trips_real_xattrs mem_os mem_test_env w" by (rule read_record_round_trips_passes [OF fs])
  show "read_record_on_unstamped_file_is_empty_not_error mem_os mem_test_env w"
    by (rule read_record_unstamped_passes [OF fs])
  show "read_record_on_missing_path_errors mem_os mem_test_env test_mem"
    by (rule read_record_missing_passes [where e = "Os ENOENT"])
      (simp add: mem_os_def mem_node_def test_mem_def mem_test_env_def path_join_def has_root_def)
qed

section \<open>Integration tests\<close>

text \<open>
  \<^verbatim>\<open>tests/integration.rs\<close>. The first test takes a failed stamp for a file system without attributes.
\<close>

definition read_back :: "'w os \<Rightarrow> path \<Rightarrow> 'w \<Rightarrow> str \<Rightarrow> str option" where
  "read_back os file w key =
     (case os_xattr_get os file key w of
        Inl _ \<Rightarrow> None
      | Inr None \<Rightarrow> None
      | Inr (Some v) \<Rightarrow> from_utf8 v)"

definition stamp_round_trips_through_xattrs :: "'w os \<Rightarrow> 'w test_env \<Rightarrow> 'w \<Rightarrow> bool" where
  "stamp_round_trips_through_xattrs os te =
     (let file = path_join (te_dir te) ''note.md'';
          i = \<lparr>session = ''01TESTSESSIONABCDEF'', tool = ''Edit'', turn = Some ''42'', intent = Some ''autobuilder''\<rparr>
      in unwrap_then (te_write te file ''hello'') (\<lambda>w.
           case stamp os file i ''2026-05-24T15:00:00Z'' w of
             (Inl e, w') \<Rightarrow> True
           | (Inr _, w') \<Rightarrow>
               read_back os file w' KEY_SESSION = Some (session i) \<and>
               read_back os file w' KEY_TOOL = Some ''Edit'' \<and>
               read_back os file w' KEY_TURN = Some ''42'' \<and>
               read_back os file w' KEY_INTENT = Some ''autobuilder'' \<and>
               read_back os file w' KEY_TS = Some ''2026-05-24T15:00:00Z'' \<and>
               read_back os file w' KEY_HISTORY = Some (session i)))"

definition skiplist_defaults_skip_git_target_node_modules :: bool where
  "skiplist_defaults_skip_git_target_node_modules \<longleftrightarrow>
     (let s = skip_defaults
      in list_all (should_skip s) [''.git/HEAD'', ''.git/objects/00/aabb'', ''target/release/x'', ''node_modules/foo''] \<and>
         list_all (\<lambda>p. \<not> should_skip s p) [''README.md'', ''src/lib.rs'', ''docs/index.html''])"

definition user_spec_extends_defaults :: bool where
  "user_spec_extends_defaults \<longleftrightarrow>
     (let s = from_user_spec ''private/, secrets/''
      in should_skip s ''private/notes.md'' \<and> should_skip s ''secrets/api.key'' \<and> should_skip s ''.git/HEAD'' \<and>
         \<not> should_skip s ''public/index.html'')"

lemma skip_integration_tests_pass:
  "skiplist_defaults_skip_git_target_node_modules" "user_spec_extends_defaults"
  by code_simp+

lemma read_back_read_str: "read_back os file w key = read_str os file key w"
  by (simp add: read_back_def read_str_def split: sum.split option.split)

text \<open>It passes whether the stamp succeeds or not.\<close>

lemma stamp_round_trips_passes:
  assumes "xattr_backend os (path_join (te_dir te) ''note.md'')"
    and "te_write te (path_join (te_dir te) ''note.md'') ''hello'' w = (Inr (), w1)"
    and "fresh_attrs os (path_join (te_dir te) ''note.md'') w1"
  shows "stamp_round_trips_through_xattrs os te w"
proof -
  let ?p = "path_join (te_dir te) ''note.md''"
  let ?i = "\<lparr>session = ''01TESTSESSIONABCDEF'', tool = ''Edit'', turn = Some ''42'', intent = Some ''autobuilder''\<rparr>"
  have push: "push_history [] ''01TESTSESSIONABCDEF'' = ''01TESTSESSIONABCDEF''" by code_simp
  have utf8: "utf8_valid ''01TESTSESSIONABCDEF''" "utf8_valid ''Edit''" "utf8_valid ''42''" "utf8_valid ''autobuilder''"
    "utf8_valid ''2026-05-24T15:00:00Z''" by code_simp+
  have keys: "read_str os ?p KEY_SESSION w' = Some ''01TESTSESSIONABCDEF'' \<and> read_str os ?p KEY_TOOL w' = Some ''Edit'' \<and>
      read_str os ?p KEY_TURN w' = Some ''42'' \<and> read_str os ?p KEY_INTENT w' = Some ''autobuilder'' \<and>
      read_str os ?p KEY_TS w' = Some ''2026-05-24T15:00:00Z'' \<and>
      read_str os ?p KEY_HISTORY w' = Some ''01TESTSESSIONABCDEF''"
    if "stamp os ?p ?i ''2026-05-24T15:00:00Z'' w1 = (Inr (), w')" for w'
    using stamp_attrs [OF assms(1) that]
    by (intro conjI; intro read_str_attr; simp add: fresh_no_history [OF assms(3)] upd_opt_def push utf8)
  show ?thesis
    using assms(2) keys
    by (auto simp: stamp_round_trips_through_xattrs_def unwrap_then_def Let_def read_back_read_str
        split: prod.split sum.split)
qed

end
