(* ===== verification/Spec2Isabelle.thy ===== *)
theory Spec2Isabelle
  imports Prov_Types Serial_Workers Repo_Tests
begin

text \<open>
  Verification of provfs, a provenance file system.

  \<^bold>\<open>The program.\<close> provfs records who wrote each file, in extended attributes \<^verbatim>\<open>user.prov.*\<close> of the file.
  A FUSE overlay (\<^verbatim>\<open>src/main.rs\<close>, \<^verbatim>\<open>src/fs.rs\<close>) passes every operation through to a source directory
  and stamps the files it creates, makes, changes or closes after a write. A stamp
  (\<^verbatim>\<open>src/xattrs.rs\<close>) writes the identity of the requesting process, found in \<^verbatim>\<open>/proc\<close>
  (\<^verbatim>\<open>src/identity.rs\<close>), and advances a ring of recent sessions (\<^verbatim>\<open>src/history.rs\<close>); paths below the
  directories of a skip list (\<^verbatim>\<open>src/skip.rs\<close>) are left alone. The reader program
  (\<^verbatim>\<open>src/bin/prov.rs\<close>) reads the attributes back (\<^verbatim>\<open>src/reader.rs\<close>), classifies the session
  (\<^verbatim>\<open>src/session.rs\<close>) and searches trees, with an age limit (\<^verbatim>\<open>src/duration.rs\<close>). A kernel module
  (\<^verbatim>\<open>lsm/provfs_lsm.c\<close>, \<^verbatim>\<open>lsm/provfs_work.c\<close>) stamps the same attributes of every file closed after a
  write: its hook renders the writer's identity and enqueues an item, a worker of a bounded queue
  writes the attributes later.

  \<^bold>\<open>The theories\<close>, in the order they build on each other:
    \<^item> \<open>Prov_Prelude\<close>: the functions of the Rust standard library the program uses (splitting,
      joining, trimming, decimal numbers, saturating arithmetic), with their lemmas, and two general
      interfaces: \<open>text_codec\<close> (a printer and the parser that reads it) and \<open>inv_machine\<close> (a step
      relation with an inductive invariant);
    \<^item> \<open>Utf8\<close>: validity of UTF-8 and lossy decoding; \<open>Unix_Path\<close>: \<^verbatim>\<open>Path::join\<close>, \<^verbatim>\<open>components\<close>,
      \<^verbatim>\<open>strip_prefix\<close>, and path equality;
    \<^item> \<open>Os_Interface\<close>: system calls, clock and extended attributes as a record of functions over an
      abstract world; \<open>Mem_Os\<close>: an instance in memory, used by the witnesses only;
    \<^item> \<open>History\<close> (\<^verbatim>\<open>push_history\<close>, \<^verbatim>\<open>parse_history\<close>), with the interface \<open>mru_ring\<close>: what a bounded
      most-recent-first ring holds after any sequence of pushes;
    \<^item> \<open>Identity\<close> (\<^verbatim>\<open>resolve_identity\<close>), \<open>Skip\<close> (\<^verbatim>\<open>SkipList\<close>, interfaces \<open>skip_matcher\<close> and
      \<open>dir_matcher\<close>), \<open>Xattrs\<close> (\<^verbatim>\<open>stamp\<close>);
    \<^item> \<open>Inode_Table\<close> (\<^verbatim>\<open>InodeTable\<close>, interface \<open>path_table\<close>), \<open>File_Attr\<close> (\<^verbatim>\<open>libc_stat_to_attr\<close>);
    \<^item> \<open>Overlay\<close>: the state \<open>provfs\<close> and one definition per handler of \<^verbatim>\<open>impl Filesystem for ProvFs\<close>,
      dispatched by \<open>handle\<close>; \<open>Overlay_Inv\<close>: the step relation, the invariant and the error paths;
      \<open>Overlay_Stamping\<close>: comparison with the loopback without stamps, the life of a dirty mark;
      \<open>Overlay_Readdir\<close>: directory listings page by page;
    \<^item> \<open>Session\<close> (\<^verbatim>\<open>classify\<close>), \<open>Duration\<close> (\<^verbatim>\<open>parse_duration\<close>), \<open>Reader\<close> (\<^verbatim>\<open>read_record\<close>,
      \<^verbatim>\<open>walk_files\<close>), \<open>Prov_Cli\<close> (the commands of \<^verbatim>\<open>prov\<close>), \<open>Provfs_Main\<close> (\<^verbatim>\<open>main\<close> of the overlay);
    \<^item> \<open>Prov_Types\<close>: the values of the reader program are text, whatever bytes it reads;
    \<^item> \<open>Lsm_Session\<close>: the hook's rendering of the writer, \<^verbatim>\<open>provfs_build_session\<close> and
      \<^verbatim>\<open>provfs_scan_writer_env\<close>, with C buffers; \<open>Lsm_Work\<close>: the kernel's skip list, the work item, the
      hook, the writes of a worker; \<open>Lsm_Queue\<close>: the queue as a step relation \<open>wq_step\<close> of concurrent
      tasks and workers (\<open>module_step\<close> the steps of the module alone, \<open>call_step\<close> the beginning of a
      call), its invariant and progress; \<open>Lsm_Runs\<close>: particular runs of it;
    \<^item> \<open>Stampers\<close>: the interface \<open>stamper\<close> between whoever stamps and the reader program, with the
      overlay and the kernel module as its two instances; \<open>Stamp_Log\<close>: the abstract specification of
      a file's provenance, a log of stamps, and the attributes as a function of it; \<open>System_Log\<close>: runs
      of overlay requests, kernel workers and other programs around one file, and the log they make;
      \<open>Serial_Workers\<close>: runs of the kernel's queue in which one worker at a time writes to a file;
    \<^item> \<open>Repo_Tests\<close>: the crate's unit and integration tests, run on the model;
    \<^item> this theory: properties from the overlay, and from the kernel module, to the reader's output.

  \<^bold>\<open>Correspondence.\<close> A struct is a record, an enum a datatype, a string or path its list of bytes,
  an unsigned integer a machine word (so \<^verbatim>\<open>next += 1\<close> wraps), a signed 64-bit one an integer with
  its bounds written out. A handler or a fallible step takes the world and returns the new one;
  \<^verbatim>\<open>Result\<close> is a sum, each early return is a branch. A hash map keyed by paths is a map keyed by
  the path's components, which is how \<^verbatim>\<open>PathBuf\<close> compares. Handlers run one at a time, as \<^verbatim>\<open>fuser\<close>
  runs them on one thread; other processes change the world between requests through the step
  \<open>outside\<close> of \<open>overlay_step\<close>. Calls that only read (\<^verbatim>\<open>lstat\<close>, \<^verbatim>\<open>pread\<close>, \<^verbatim>\<open>getxattr\<close>, \<^verbatim>\<open>read_dir\<close>) do not
  change the world. In the kernel module every access to shared state (an atomic operation, a
  reference taken or given back, one attribute write) is a step of its own, so tasks and workers
  interleave freely; a C string is its bytes without the NUL, cut where
  the buffer ends; a null pointer is \<open>None\<close>; the task's names, ids, environment block and directory
  are the record \<open>task\<close>, whose optional parts are those a task may have lost while it exits.

  \<^bold>\<open>What is shown.\<close> The overlay stays inside its source and its inode table
  is a bijection in every reachable state; stamping changes neither replies nor state; a write
  is stamped at the next release; skipped paths are untouched; a listing is complete whatever
  the page size; a stamp writes the identity and keeps the ring the list of the five most recent
  sessions; what is stamped is what \<^verbatim>\<open>prov\<close> reads, prints and finds;
  whatever the two programs do to a file, in any order, its record is the view of the log of its
  stamps; both fallback session formats are read back, and every field of a truncated one is a
  beginning of the true field; durations and cut-offs do not wrap; absence of provenance is not
  an error; everything \<^verbatim>\<open>prov\<close> prints, error lines included, is text; and some limits of the
  code as theorems of their own: a reader's close taking over a writer's stamp,
  \<^verbatim>\<open>setattr\<close> ignoring owner and times, commas in session ids, stale
  turns. For the kernel module: the session it builds is read back exactly when it fits, and
  keeps its chain of names when it does not; its skip list agrees with the overlay's; the
  queue's depth, references and drop counter account for every call in every state of every
  interleaving, so that no worker writes to a dentry it holds no reference on, the depth stays below
  the limit plus the number of tasks, no accepted item is lost, and left alone the module always
  drains the queue, in a bounded number of steps; when one worker at a time writes to a file its stamps are whole and in the
  order of acceptance; without a queue every call is only counted; a list written to its sysctl
  decides from then on what is stamped; what the hook captured is what \<^verbatim>\<open>prov
  who\<close> prints and \<^verbatim>\<open>prov find\<close> finds. Its limits: no history, so
  that \<^verbatim>\<open>prov chain\<close> knows only the overlay's sessions, a cut-off uid,
  sessions of \<^verbatim>\<open>systemd\<close> that the reader does not recognise, and stamps
  of two workers that mix.

  \<^bold>\<open>Hypotheses and bounds.\<close> \<open>xattr_backend\<close> is the documented behaviour of \<^verbatim>\<open>setxattr\<close> and \<^verbatim>\<open>getxattr\<close>
  on one path. \<open>table_room\<close> says that the 64-bit inode counter has room for the inodes a request
  may allocate, \<open>file_name\<close> that a name in a request is one path component, as the kernel
  guarantees. \<open>walk_loop\<close> is a partial function, defined when the tree is of finite depth
  (\<open>depth_below\<close>); the depth bound is any natural number. \<open>list_dir\<close>, the kernel's loop over
  \<^verbatim>\<open>readdir\<close>, takes the number of calls; one call for each entry and one more are enough.

  \<open>settable\<close> says that attributes can be set on a path; a step of \<open>system_run\<close> requires that what
  else happens leaves the provenance attributes of the file alone, and \<open>event_ok\<close> that session ids
  have no comma. In the queue theorems the number of tasks
  is any natural number; the 32-bit depth is exact for up to \<open>2 ^ 22\<close> tasks, the kernel's own limit.

  \<^bold>\<open>Not modelled.\<close> Argument parsing (\<^verbatim>\<open>clap\<close>), the text that \<^verbatim>\<open>serde_json\<close> prints for a value, that
  \<^verbatim>\<open>io::Error\<close> prints and that \<^verbatim>\<open>{:?}\<close> quotes (the parameters \<open>printers\<close>), log messages, \<^verbatim>\<open>chrono\<close>'s calendar (a parameter), the mount itself (\<^verbatim>\<open>fuser::mount2\<close>, a parameter); of
  the kernel, the registration of the hook and of the sysctl table, \<^verbatim>\<open>proc_dostring\<close> (a parameter), the
  order in which the kernel runs queued items beyond first come, first started, and the rendering
  of an AgentNS id (part of the task). \<^verbatim>\<open>src/lib.rs\<close> only declares the modules.
\<close>

section \<open>From a write to the reader's output\<close>

text \<open>
  C2. From the file system to the reader. After a process whose environment sets no session creates a
  file through the overlay, outside the skipped directories, \<^verbatim>\<open>prov who\<close> on that file prints the name
  that \<^verbatim>\<open>/proc\<close> gives for that process, and its pid.
\<close>

theorem created_file_names_its_creator:
  assumes "path_of (inodes fs) parent = Some pp" and "child = path_join pp name"
    and "\<not> should_skip (skip fs) (relpath fs child)" and "xattr_backend os child"
    and "os_open os child (flags OR O_CREAT) mode w = (Inr fd, w1)"
    and "os_read_file os (''/proc/'' @ dec_str (unat pid) @ ''/environ'') w1 = Inr (render_environ env)"
    and "list_all env_ok env" and "''CLAUDE_SESSION'' \<notin> fst ` set env"
    and "os_read_file os (''/proc/'' @ dec_str (unat pid) @ ''/comm'') w1 = Inr (comm @ [CHR 0x0A])"
    and "comm_ok comm" and "utf8_valid comm" and "trimmed comm"
    and "fst (stamp os child (resolve_identity os pid w1) (os_now_rfc3339 os w1) w1) = Inr ()"
    and "handle os pid (Create parent name mode flags) fs w = (RCreated ttl a g fh fl, fs', w')"
    and "read_record os child w' = Inr r"
  shows "cmd_who os child False w' =
    ([Line (''fallback: comm='' @ comm @ '' pid='' @ dec_str (unat pid))], SUCCESS)"
proof -
  let ?ident = "resolve_identity os pid w1"
  have s: "session ?ident = fallback_session comm pid"
    using assms(6,9) by (intro session_from_comm [OF _ assms(7,8) _ assms(11,12)]) (simp_all add: proc_path_def)
  have "w' = maybe_stamp os fs child pid w1" using create_ok [OF assms(1,2,5,14)] by blast
  then have "stamp os child ?ident (os_now_rfc3339 os w1) w1 = (Inr (), w')"
    using maybe_stamp_ok [OF assms(3) refl assms(13)] by simp
  with overlay_stamper.who_prints [of os child "(?ident, os_now_rfc3339 os w1)" w1 w' r False] assms(4,15) s
    utf8_valid_fallback [OF assms(11), of pid] classify_fallback_session [OF assms(10), of pid]
  show ?thesis by simp
qed

definition creator_mem :: mem where
  "creator_mem = mem_files [(''/proc/7/environ'', render_environ [(''HOME'', ''/r'')]),
     (''/proc/7/comm'', ''bash'' @ [CHR 0x0A])]"

lemma creator_fresh: "mem_node creator_mem ''/s/new'' = None" "m_fds creator_mem = []"
  by (simp_all add: creator_mem_def mem_files_def mem_node_def)

theorem created_file_names_its_creator_witness:
  "\<exists>fs' w' rep. handle mem_os 7 (Create 1 ''new'' 0x1A4 1) (provfs_new ''/s'' skip_defaults) creator_mem =
       (rep, fs', w') \<and>
     cmd_who mem_os ''/s/new'' False w' = ([Line ''fallback: comm=bash pid=7''], SUCCESS)"
proof (rule demo_create_in [OF creator_fresh])
  fix w1 a fs' w'
  let ?fs = "provfs_new ''/s'' skip_defaults" and ?env = "[(''HOME'', ''/r'')]"
  assume o: "os_open mem_os ''/s/new'' (1 OR O_CREAT) 0x1A4 creator_mem = (Inr 3, w1)"
    and node: "mem_node w1 ''/s/new'' \<noteq> None"
    and other: "\<And>q. q \<noteq> ''/s/new'' \<Longrightarrow> mem_node w1 q = mem_node creator_mem q"
    and h: "handle mem_os 7 (Create 1 ''new'' 0x1A4 1) ?fs creator_mem = (RCreated TTL a 0 3 0, fs', w')"
    and w': "w' = maybe_stamp mem_os ?fs ''/s/new'' 7 w1"
  have pid: "dec_str 7 = ''7''" by code_simp
  have env: "os_read_file mem_os (''/proc/'' @ dec_str (unat (7 :: u32)) @ ''/environ'') w1 = Inr (render_environ ?env)"
    and comm: "os_read_file mem_os (''/proc/'' @ dec_str (unat (7 :: u32)) @ ''/comm'') w1 = Inr (''bash'' @ [CHR 0x0A])"
    using other by (simp_all add: pid mem_os_def) (simp_all add: creator_mem_def mem_node_def mem_files_def plain_node_def)
  have c: "comm_ok ''bash''" "utf8_valid ''bash''" "trimmed ''bash''" and e: "list_all env_ok ?env"
    by code_simp+
  have no: "''CLAUDE_SESSION'' \<notin> fst ` set ?env" by simp
  have "mem_node w' ''/s/new'' \<noteq> None" unfolding w' by (rule mem_maybe_stamp_node [OF node])
  then obtain r where r: "read_record mem_os ''/s/new'' w' = Inr r" using mem_read_record by blast
  from created_file_names_its_creator [OF demo_fresh(1,2,4) mem_xattr_backend o env e no comm c
      mem_stamp_ok [OF node] h r] h
  show ?thesis by (simp add: pid)
qed

text \<open>
  From any number of stamps to \<^verbatim>\<open>prov chain\<close>: on a file that had no history, the command lists
  the distinct sessions that stamped it, numbered from 0, most recent first, at most five.
\<close>

theorem chain_lists_recent_sessions:
  assumes "xattr_backend os p" and "stamp_all os p ids w = (Inr (), w')" and "ids \<noteq> []"
    and "os_xattr_get os p KEY_HISTORY w = Inr None"
    and "list_all (\<lambda>(i, _). utf8_valid (session i) \<and> history_ok (session i)) ids"
    and "read_record os p w' = Inr r"
  shows "cmd_chain os p False w' =
    (map (\<lambda>(i, s). Line (dec_str i @ '': '' @ session_kind_human (classify s)))
       (enumerate 0 (take MAX_HISTORY (dedup (rev (map (session \<circ> fst) ids))))), SUCCESS)"
proof -
  let ?mru = "take MAX_HISTORY (dedup (rev (map (session \<circ> fst) ids)))"
  have parse: "parse_history (prior_history os p w') = ?mru"
    by (rule stamped_history [OF assms(1,2,4,5)])
  have ne: "?mru \<noteq> []" using assms(3) by (simp add: MAX_HISTORY_def)
  with parse have "prior_history os p w' \<noteq> []"
    by (auto simp: parse_history_def entries_def)
  then obtain v where v: "os_xattr_get os p KEY_HISTORY w' = Inr (Some v)" "from_utf8 v = Some v"
    and prior: "prior_history os p w' = v"
    by (auto simp: prior_history_def read_str_def from_utf8_def split: sum.splits option.splits if_splits)
  then have "r_history r = Some v"
    using assms(6) get_key_attr [of os p w' KEY_HISTORY v]
    by (auto simp: read_record_Inr attr_def from_utf8_def split: if_splits)
  then show ?thesis
    using assms(6) parse prior ne by (simp add: cmd_chain_def load_record_def Let_def)
qed

theorem chain_lists_recent_sessions_witness:
  "\<exists>m'. stamp_all mem_os ''/f'' [(demo_ident, ''t0''), (demo_ident\<lparr>session := ''S2''\<rparr>, ''t1'')]
          (mem_files [(''/f'', [])]) = (Inr (), m') \<and>
     cmd_chain mem_os ''/f'' False m' =
       ([Line (dec_str 0 @ '': unrecognized: S2''), Line (dec_str 1 @ '': unrecognized: S1'')], SUCCESS)"
proof -
  let ?ids = "[(demo_ident, ''t0''), (demo_ident\<lparr>session := ''S2''\<rparr>, ''t1'')]"
  obtain m' where m': "stamp_all mem_os ''/f'' ?ids (mem_files [(''/f'', [])]) = (Inr (), m')"
    and node: "mem_node m' ''/f'' \<noteq> None"
    by (simp add: stamp_defs io_then_def io_ok_def mem_os_def mem_on_def mem_node_def mem_put_def
        mem_files_def demo_ident_def Let_def)
  have 1: "os_xattr_get mem_os ''/f'' KEY_HISTORY (mem_files [(''/f'', [])]) = Inr None"
    by (simp add: mem_os_def mem_node_def mem_files_def plain_node_def)
  have 2: "list_all (\<lambda>(i, _). utf8_valid (session i) \<and> history_ok (session i)) ?ids"
    by code_simp
  obtain r where r: "read_record mem_os ''/f'' m' = Inr r" using mem_read_record [OF node] by blast
  have o: "classify ''S1'' = Opaque ''S1''" "classify ''S2'' = Opaque ''S2''" by code_simp+
  from chain_lists_recent_sessions [OF mem_xattr_backend m' _ 1 2 r] m' show ?thesis
    by (simp add: demo_ident_def MAX_HISTORY_def o)
qed

section \<open>From the kernel module to the reader's output\<close>

text \<open>
  C3. From a close in the kernel to the command line. When a task outside every agent namespace
  closes a file it had open for writing, and the hook makes an item of it, then after the worker has
  processed the item \<^verbatim>\<open>prov who\<close> prints the task's chain of names, uid, pid, directory and
  environment signal, and \<^verbatim>\<open>prov find --since\<close> dates the write to the second of the close.
\<close>

theorem kernel_stamp_is_shown:
  assumes "provfs_file_release buf tk rl = Some k" and "tk_agent_ns tk = None"
    and "f = kernel_fields tk (hd (provfs_scan_writer_env tk))"
    and "fallback_ok f" and "utf8_valid (render_fallback f)" and "length (render_fallback f) < PROV_IDENT_MAX"
    and "int (rl_seconds rl) \<le> i64_max" and "p = rl_dentry rl"
    and "xattr_backend os p" and "settable os p P" and "P w"
    and "provfs_stamp_worker os k w = w'" and "read_record os p w' = Inr r"
  shows "cmd_who os p False w' = ([Line (fallback_human f)], SUCCESS) \<and>
    (recent ch cutoff r \<longleftrightarrow> cutoff \<le> int (rl_seconds rl))"
proof -
  note k = released_item [OF assms(1-3,6,7)]
  have st: "xattr_backend os p \<and> wk_dentry k = p \<and> (\<exists>P. settable os p P \<and> P w) \<and> provfs_stamp_worker os k w = w'"
    using assms(8-12) k(1) by blast
  have "classify (render_fallback f) = EnrichedFallback f" by (rule enriched.dec_enc [OF assms(4)])
  then show ?thesis
    using kernel_stamper.who_prints [OF st assms(13), of False] assms(5) k(2)
      kernel_stamper.dated [OF st assms(13) k(3,4)] by simp
qed

definition demo_release :: release where
  "demo_release = \<lparr>rl_write = True, rl_has_dentry = True, rl_regular = True, rl_dentry = ''/w/f'',
     rl_abs_path = Some ''/w/f'', rl_seconds = 1717123456\<rparr>"

lemma demo_fields:
  "kernel_fields demo_task [] = \<lparr>comm_chain = Some ''sed>make>bash'', env_tag = None, cwd = Some ''/w'',
     pid_tag = Some ''42'', uid_tag = Some ''1000''\<rparr>"
  by code_simp

lemma demo_release_facts:
  "tk_agent_ns demo_task = None" "kernel_fields demo_task [] = kernel_fields demo_task (hd (provfs_scan_writer_env demo_task))"
  "fallback_ok (kernel_fields demo_task [])" "utf8_valid (render_fallback (kernel_fields demo_task []))"
  "length (render_fallback (kernel_fields demo_task [])) < PROV_IDENT_MAX" "int (rl_seconds demo_release) \<le> i64_max"
  "''/w/f'' = rl_dentry demo_release"
proof -
  have "provfs_scan_writer_env demo_task = [[], [], [], []]" by code_simp
  then show "kernel_fields demo_task [] = kernel_fields demo_task (hd (provfs_scan_writer_env demo_task))" by simp
  show "tk_agent_ns demo_task = None" by (simp add: demo_task_def)
qed (simp_all add: demo_fields fallback_ok_def field_ok_def render_fallback_def fallback_segs_def render_field_def
    PROV_IDENT_MAX_def ascii_def demo_release_def i64_max_def)

text \<open>The item of that close, and the record of the file after a worker has processed it.\<close>

lemma demo_release_run:
  assumes "mem_node w ''/w/f'' \<noteq> None"
  obtains k r where "provfs_file_release ''/tmp/'' demo_task demo_release = Some k"
    and "read_record mem_os ''/w/f'' (provfs_stamp_worker mem_os k w) = Inr r"
proof -
  have "\<not> provfs_path_skipped ''/tmp/'' (Some ''/w/f'')" by code_simp
  then obtain k where k: "provfs_file_release ''/tmp/'' demo_task demo_release = Some k"
    using file_release_iff [of "''/tmp/''" demo_task demo_release] by (auto simp: demo_release_def)
  have "wk_dentry k = ''/w/f''"
    using released_item(1) [OF k demo_release_facts(1,2,5,6)] demo_release_facts(7) by simp
  then have "mem_node (provfs_stamp_worker mem_os k w) ''/w/f'' \<noteq> None"
    using mem_worker_node [of w k] assms by simp
  with mem_read_record k that show thesis by blast
qed

theorem kernel_stamp_is_shown_witness:
  "\<exists>k. provfs_file_release ''/tmp/'' demo_task demo_release = Some k \<and>
     cmd_who mem_os ''/w/f'' False (provfs_stamp_worker mem_os k (mem_files [(''/w/f'', ''x'')])) =
       ([Line ''fallback: comm-chain=sed>make>bash uid=1000 pid=42 cwd=/w''], SUCCESS)"
proof -
  have node: "mem_node (mem_files [(''/w/f'', ''x'')]) ''/w/f'' \<noteq> None" by (simp add: mem_node_def mem_files_def)
  obtain k r where k: "provfs_file_release ''/tmp/'' demo_task demo_release = Some k"
    and r: "read_record mem_os ''/w/f'' (provfs_stamp_worker mem_os k (mem_files [(''/w/f'', ''x'')])) = Inr r"
    by (rule demo_release_run [OF node])
  have "fallback_human (kernel_fields demo_task []) = ''fallback: comm-chain=sed>make>bash uid=1000 pid=42 cwd=/w''"
    unfolding demo_fields by code_simp
  with k kernel_stamp_is_shown [OF k demo_release_facts mem_xattr_backend mem_settable node refl r]
  show ?thesis by simp
qed

text \<open>
  C5. From a close in the kernel to a search. After the worker has stamped the file, \<^verbatim>\<open>prov find\<close> with
  a prefix of a session and an age, run in any directory above the file, returns; what it prints are
  the errors of the walk and the list of the walk's matches, and the file is in that list, with its
  record, exactly when the session the kernel built begins with the prefix and the close is not older
  than the age: however large the age, the comparison does not wrap.
\<close>

theorem kernel_stamp_is_found:
  assumes "provfs_file_release buf tk rl = Some k" and "tk_agent_ns tk = None"
    and "f = kernel_fields tk (hd (provfs_scan_writer_env tk))"
    and "utf8_valid (render_fallback f)" and "length (render_fallback f) < PROV_IDENT_MAX"
    and "int (rl_seconds rl) \<le> i64_max" and "p = rl_dentry rl"
    and "xattr_backend os p" and "settable os p P" and "P w"
    and "provfs_stamp_worker os k w = w'" and "read_record os p w' = Inr r"
    and "file_below os w' root p" and "depth_below os w' n root"
    and "parse_duration since = Inr dur" and "uint (os_now_secs os w') \<le> i64_max"
    and "q = \<lparr>fq_tool = None, fq_since = Some since, fq_session = Some pre, fq_intent = None\<rparr>"
    and "cutoff = uint (os_now_secs os w') - min (uint dur) i64_max"
  shows "\<exists>ents errs ms. walk_files os root w' = Some ents \<and>
    errs = walk_errors ents \<and> ms = walk_matches ch q (Some cutoff) ents \<and>
    cmd_find os ch root q js w' = Some (map (\<lambda>(p, e). ErrPath p e) errs @ find_output js ms,
      if errs \<noteq> [] \<and> ms = [] then FAILURE else SUCCESS) \<and>
    (p \<in> fst ` set ms \<longleftrightarrow> prefix pre (render_fallback f) \<and> cutoff \<le> int (rl_seconds rl)) \<and>
    (\<forall>r'. (p, r') \<in> set ms \<longrightarrow> r' = r)"
proof -
  note k = released_item [OF assms(1-3,5,6)]
  have st: "xattr_backend os p \<and> wk_dentry k = p \<and> (\<exists>P. settable os p P \<and> P w) \<and> provfs_stamp_worker os k w = w'"
    using assms(7-11) k(1) by blast
  have cut: "find_cutoff os w' (fq_since q) = Inr (Some cutoff)"
    using find_cutoff_Inr [OF assms(15,16)] assms(17,18) by simp
  have match: "find_match ch q (Some cutoff) r \<longleftrightarrow> prefix pre (render_fallback f) \<and> cutoff \<le> int (rl_seconds rl)"
    using kernel_stamper.found [OF st assms(12) _ k(3,4)] assms(4,17) k(2) by simp
  let ?ents = "tree_files os w' n root"
  let ?ms = "walk_matches ch q (Some cutoff) ?ents"
  have mem: "(p, r') \<in> set ?ms \<longleftrightarrow> r' = r \<and> prefix pre (render_fallback f) \<and> cutoff \<le> int (rl_seconds rl)" for r'
    using tree_matches [OF assms(14), of p r' ch q "Some cutoff"] assms(12,13) match by auto
  then have "p \<in> fst ` set ?ms \<longleftrightarrow> prefix pre (render_fallback f) \<and> cutoff \<le> int (rl_seconds rl)" by force
  moreover have "\<forall>r'. (p, r') \<in> set ?ms \<longrightarrow> r' = r" using mem by blast
  moreover have "cmd_find os ch root q js w' = Some (map (\<lambda>(p, e). ErrPath p e) (walk_errors ?ents) @ find_output js ?ms,
      if walk_errors ?ents \<noteq> [] \<and> ?ms = [] then FAILURE else SUCCESS)"
    by (simp add: cmd_find_tree [OF assms(14) cut] find_result_def error_lines_def)
  ultimately show ?thesis using walk_files_tree [OF assms(14)] by blast
qed

definition demo_tree :: mem where
  "demo_tree = (mem_files [])\<lparr>m_nodes := [(''/w'', plain_node IsDir []), (''/w/f'', plain_node IsFile ''x'')]\<rparr>"

definition kernel_query :: "str \<Rightarrow> find_query" where
  "kernel_query pre = \<lparr>fq_tool = None, fq_since = Some (dec_str 1000 @ ''d''), fq_session = Some pre, fq_intent = None\<rparr>"

theorem kernel_stamp_is_found_witness:
  "\<exists>k. provfs_file_release ''/tmp/'' demo_task demo_release = Some k \<and>
     (\<exists>errs ms. cmd_find mem_os demo_chrono ''/w'' (kernel_query ''comm-chain:sed'') False
         (provfs_stamp_worker mem_os k demo_tree) =
       Some (map (\<lambda>(p, e). ErrPath p e) errs @ find_output False ms, SUCCESS) \<and> ''/w/f'' \<in> fst ` set ms) \<and>
     (\<exists>errs ms. cmd_find mem_os demo_chrono ''/w'' (kernel_query ''comm-chain:awk'') False
         (provfs_stamp_worker mem_os k demo_tree) =
       Some (map (\<lambda>(p, e). ErrPath p e) errs @ find_output False ms,
         if errs \<noteq> [] \<and> ms = [] then FAILURE else SUCCESS) \<and> ''/w/f'' \<notin> fst ` set ms)"
proof -
  have node: "mem_node demo_tree ''/w/f'' \<noteq> None" by (simp add: mem_node_def demo_tree_def)
  obtain k r where k: "provfs_file_release ''/tmp/'' demo_task demo_release = Some k"
    and r: "read_record mem_os ''/w/f'' (provfs_stamp_worker mem_os k demo_tree) = Inr r"
    by (rule demo_release_run [OF node])
  let ?w' = "provfs_stamp_worker mem_os k demo_tree" and ?f = "kernel_fields demo_task []"
  have dir: "os_read_dir mem_os ''/w'' ?w' = Inr [Inr \<lparr>de_name = ''f'', de_type = Inr IsFile\<rparr>]"
    unfolding mem_worker_keeps by (simp add: mem_os_def mem_node_def demo_tree_def mem_children_def plain_node_def)
  have below: "file_below mem_os ?w' ''/w'' ''/w/f''"
    using file_below.here [OF dir] by (simp add: path_join_def has_root_def)
  have depth: "depth_below mem_os ?w' 1 ''/w''" by (simp add: dir subdirs_def List.map_filter_def)
  have now: "os_now_secs mem_os ?w' = 1779580800"
    unfolding mem_worker_keeps by (simp add: mem_os_def demo_tree_def mem_files_def)
  have dur: "parse_duration (dec_str 1000 @ ''d'') = Inr 86400000"
  proof -
    have "trim (dec_str 1000 @ ''d'') = ''1000'' @ [CHR ''d'']" by code_simp
    then show ?thesis
      using parse_duration_split [of "''1000''" _ "CHR ''d''"]
      by (simp add: is_digit_def dec_val_def digit_val_def unit_secs_def u64_max_def)
  qed
  have bound: "uint (os_now_secs mem_os ?w') \<le> i64_max" by (simp add: now i64_max_def)
  have chain: "prefix ''comm-chain:sed'' (render_fallback ?f)" "\<not> prefix ''comm-chain:awk'' (render_fallback ?f)"
    by (simp_all add: demo_fields render_fallback_def fallback_segs_def render_field_def)
  have young: "uint (os_now_secs mem_os ?w') - min (uint (86400000 :: u64)) i64_max \<le> int (rl_seconds demo_release)"
    by (simp add: now demo_release_def i64_max_def)
  have found: "\<exists>errs ms. cmd_find mem_os demo_chrono ''/w'' (kernel_query pre) False ?w' =
        Some (map (\<lambda>(p, e). ErrPath p e) errs @ find_output False ms,
          if errs \<noteq> [] \<and> ms = [] then FAILURE else SUCCESS) \<and>
      (''/w/f'' \<in> fst ` set ms \<longleftrightarrow> prefix pre (render_fallback ?f))" for pre
    using kernel_stamp_is_found [OF k demo_release_facts(1,2,4-7) mem_xattr_backend mem_settable node refl r below
        depth dur bound kernel_query_def refl, of demo_chrono pre False] young by blast
  obtain errs ms where "cmd_find mem_os demo_chrono ''/w'' (kernel_query ''comm-chain:sed'') False ?w' =
      Some (map (\<lambda>(p, e). ErrPath p e) errs @ find_output False ms, if errs \<noteq> [] \<and> ms = [] then FAILURE else SUCCESS)"
    and "''/w/f'' \<in> fst ` set ms"
    using found [of "''comm-chain:sed''"] chain(1) by blast
  then have "cmd_find mem_os demo_chrono ''/w'' (kernel_query ''comm-chain:sed'') False ?w' =
      Some (map (\<lambda>(p, e). ErrPath p e) errs @ find_output False ms, SUCCESS)" by auto
  with k \<open>''/w/f'' \<in> fst ` set ms\<close> found [of "''comm-chain:awk''"] chain(2) show ?thesis by blast
qed

section \<open>The reader's output after any run\<close>

text \<open>
  C10. What \<^verbatim>\<open>prov who\<close> and \<^verbatim>\<open>prov chain\<close> print after any run of the two programs, from the log of the
  stamps alone: \<^verbatim>\<open>who\<close> the session of the newest stamp, whoever made it; \<^verbatim>\<open>chain\<close> the distinct sessions
  of the overlay's stamps, numbered from 0, most recent first, at most five. A file that only the
  kernel module stamped has a session and no history: \<^verbatim>\<open>chain\<close> says that it has no provenance.
\<close>

theorem commands_show_the_log:
  assumes "xattr_backend os p" and "system_run os p (fs, w) L" and "list_all event_ok L"
    and "read_record os p w = Inr r"
  shows "cmd_who os p False w =
      (case L of [] \<Rightarrow> no_provenance False
       | e # L' \<Rightarrow> ([Line (session_kind_human (classify (ev_session e)))], SUCCESS)) \<and>
    cmd_chain os p False w =
      (if ring_sessions L = [] then no_provenance False
       else (map (\<lambda>(i, s). Line (dec_str i @ '': '' @ session_kind_human (classify s)))
               (enumerate 0 (take MAX_HISTORY (dedup (ring_sessions L)))), SUCCESS))"
proof
  have log: "log_shows L r"
    using logged_record [OF assms(1) _ assms(3,4)] system_logged [OF assms(2)] by simp
  then have "r_session r = (case L of [] \<Rightarrow> None | e # L' \<Rightarrow> Some (ev_session e))"
    by (cases L) (simp_all add: log_shows_def or_else_def)
  then show "cmd_who os p False w =
      (case L of [] \<Rightarrow> no_provenance False
       | e # L' \<Rightarrow> ([Line (session_kind_human (classify (ev_session e)))], SUCCESS))"
    using assms(4) by (cases L) (simp_all add: cmd_who_def load_record_def Let_def)
  have "take MAX_HISTORY (dedup (ring_sessions L)) \<noteq> []" if "ring_sessions L \<noteq> []"
    using that by (simp add: MAX_HISTORY_def)
  with log assms(4) show "cmd_chain os p False w =
      (if ring_sessions L = [] then no_provenance False
       else (map (\<lambda>(i, s). Line (dec_str i @ '': '' @ session_kind_human (classify s)))
               (enumerate 0 (take MAX_HISTORY (dedup (ring_sessions L)))), SUCCESS))"
    by (auto simp: cmd_chain_def load_record_def log_shows_def Let_def split: option.splits)
qed

theorem commands_show_the_log_witness:
  "\<exists>fs w L. system_run mem_os ''/s/new'' (fs, w) L \<and>
     cmd_who mem_os ''/s/new'' False w = ([Line ''unrecognized: pid:9;uid:0''], SUCCESS) \<and>
     cmd_chain mem_os ''/s/new'' False w = ([Line (dec_str 0 @ '': fallback: comm=unknown pid=7'')], SUCCESS)"
proof (rule demo_system_run)
  fix fs w r
  assume run: "system_run mem_os ''/s/new'' (fs, w) [By_Kernel demo_item, demo_entry]"
    and r: "read_record mem_os ''/s/new'' w = Inr r"
  have c: "classify ''pid:9;uid:0'' = Opaque ''pid:9;uid:0''"
    "classify ''comm:unknown:pid:7'' = LegacyFallback ''unknown'' ''7''" by code_simp+
  from commands_show_the_log [OF mem_xattr_backend run demo_events_ok r]
  have "cmd_who mem_os ''/s/new'' False w = ([Line ''unrecognized: pid:9;uid:0''], SUCCESS)"
    "cmd_chain mem_os ''/s/new'' False w = ([Line (dec_str 0 @ '': fallback: comm=unknown pid=7'')], SUCCESS)"
    by (simp_all add: demo_item_fields demo_entry_def c MAX_HISTORY_def)
  with run show ?thesis by blast
qed

end
